theory Spec2Isabelle
  imports Main "HOL-Library.Word" "HOL-Library.Finite_Map"
begin

unbundle bit_operations_syntax

section \<open>Data model of the skyobject package\<close>

text \<open>
  \<^verbatim>\<open>cipher.SHA256\<close> is a \<^verbatim>\<open>[32]byte\<close>, that is 256 bits; its zero value is the
  word \<open>0\<close>. A \<^verbatim>\<open>[]byte\<close> is a list of bytes. Go maps are finite maps.
\<close>

type_synonym SHA256 = "256 word"
type_synonym bytes = "8 word list"
type_synonym objects = "(SHA256, bytes) fmap"

text \<open>
  Errors as values. \<^verbatim>\<open>ErrViewOnlyTree\<close> and \<^verbatim>\<open>ErrIndexOutOfRange\<close> are the two
  error variables of the Pack; \<open>ErrObjectNotFound\<close> is the \<^verbatim>\<open>fmt.Errorf("object [%s] not found")\<close>
  of \<^verbatim>\<open>Pack.get\<close> and \<open>ErrNoObjectFound\<close> the \<^verbatim>\<open>fmt.Errorf("no object found with key '%s'")\<close>
  of \<^verbatim>\<open>Container.Get\<close>; \<open>PanicNotImplemented\<close> is \<^verbatim>\<open>panic("not implemented yet")\<close>;
  \<open>ErrDB\<close> carries an error of the database transaction; \<open>ErrRegistry\<close> carries an
  error of the type registry.
  A panic is not a returned error: an outcome that carries \<open>PanicNotImplemented\<close>
  stands for the panic, the method did not return, and the Pack of the outcome is the
  state at the panic.
\<close>

datatype registry_error = UnregisteredType | UnknownSchema | DecodeError

datatype error =
    ErrViewOnlyTree
  | ErrIndexOutOfRange
  | ErrObjectNotFound SHA256
  | ErrNoObjectFound SHA256
  | ErrRegistry registry_error
  | ErrDB string
  | PanicNotImplemented

text \<open>The unpacking flags: \<^verbatim>\<open>1 << iota\<close> for iota = 0..4, and \<^verbatim>\<open>Default = GoTypes\<close>.\<close>

definition EntireMerkleTrees :: int where "EntireMerkleTrees = 1"
definition EntireTree :: int where "EntireTree = 2"
definition HashTableIndex :: int where "HashTableIndex = 4"
definition ViewOnly :: int where "ViewOnly = 8"
definition GoTypes :: int where "GoTypes = 16"
definition Default :: int where "Default = GoTypes"

text \<open>
  Modelled from the spec: the \<^verbatim>\<open>walkNode\<close> behind a Dynamic reference is not in the
  sources. The spec gives a Dynamic a cached native value, a dirty mark and an optional
  recorded position in its parent collection; the sources only test the pointer against
  nil and set its \<^verbatim>\<open>pack\<close> field. The back pointer to the Pack is not stored: the Pack is
  passed explicitly. The parent collection is always \<^verbatim>\<open>Root.Refs\<close> here, so the position
  is the index alone.
\<close>

record 'v walkNode =
  wn_value :: "'v option"
  wn_dirty :: bool
  wn_index :: "nat option"

definition new_walkNode :: "'v walkNode" where
  "new_walkNode = \<lparr>wn_value = None, wn_dirty = False, wn_index = None\<rparr>"

text \<open>
  Modelled from the spec: the Dynamic struct is not in the sources. It holds the schema
  identifier, the hash of the object, and the \<^verbatim>\<open>walkNode\<close> pointer (nil: \<open>None\<close>).
\<close>

record 'v Dynamic =
  SchemaRef :: SHA256
  Object :: SHA256
  walkNode :: "'v walkNode option"

text \<open>The zero value \<^verbatim>\<open>Dynamic{}\<close>.\<close>

definition Dynamic_blank :: "'v Dynamic" where
  "Dynamic_blank = \<lparr>SchemaRef = 0, Object = 0, walkNode = None\<rparr>"

text \<open>
  Modelled from the spec: the Root struct is not in the sources, which use its fields
  \<^verbatim>\<open>Time\<close> and \<^verbatim>\<open>Refs\<close>; the sequence number (u64) is the spec's.
\<close>

record 'v Root =
  Seq :: "64 word"
  Time :: int
  Refs :: "'v Dynamic list"

text \<open>
  Modelled from the spec: \<^verbatim>\<open>data.RootPack\<close> is not in the sources; the spec describes
  the committed snapshot as (hash, sequence, timestamp).
\<close>

record RootPack =
  rp_Hash :: SHA256
  rp_Seq :: "64 word"
  rp_Time :: int

definition RootPack_zero :: RootPack where
  "RootPack_zero = \<lparr>rp_Hash = 0, rp_Seq = 0, rp_Time = 0\<rparr>"

text \<open>
  Modelled from the spec: the type registry (\<^verbatim>\<open>Registry\<close>, \<^verbatim>\<open>Types\<close>, \<^verbatim>\<open>unpackToGo\<close>) is
  not in the sources. \<open>encode\<close> gives the schema identifier and the bytes of a native
  value, or fails with \<open>UnregisteredType\<close>; \<open>decode\<close> fails with \<open>UnknownSchema\<close> or
  \<open>DecodeError\<close>.
\<close>

record 'v Registry =
  encode :: "'v \<Rightarrow> (SHA256 \<times> bytes) option"
  decode :: "SHA256 \<Rightarrow> bytes \<Rightarrow> registry_error + 'v"

text \<open>
  The Pack. The Container \<^verbatim>\<open>c\<close> is only used through \<^verbatim>\<open>p.c.DB()\<close>, so the field holds
  the objects of the database. \<^verbatim>\<open>Save\<close> writes to \<^verbatim>\<open>p.cache\<close>, which the struct of the
  sources does not declare; the field is part of the record.
\<close>

record 'v Pack =
  c :: objects
  r :: "'v Root"
  reg :: "'v Registry"
  flags :: int
  unsaved :: objects
  cache :: objects

section \<open>The database boundary\<close>

text \<open>
  Modelled from the spec: \<^verbatim>\<open>data.DB\<close> is not in the sources. \<^verbatim>\<open>View\<close> runs a read-only
  function; \<^verbatim>\<open>Update\<close> runs a function in one read-write transaction and rolls every
  write back when the function returns an error.
\<close>

definition DB_Update :: "objects \<Rightarrow> (objects \<Rightarrow> string + objects) \<Rightarrow> objects \<times> error option" where
  "DB_Update db fn = (case fn db of Inl e \<Rightarrow> (db, Some (ErrDB e)) | Inr db' \<Rightarrow> (db', None))"

definition DB_Get :: "objects \<Rightarrow> SHA256 \<Rightarrow> bytes option" where
  "DB_Get db key = fmlookup db key"

section \<open>Internal get, set and add of the Pack\<close>

definition Pack_get :: "'v Pack \<Rightarrow> SHA256 \<Rightarrow> error + bytes" where
  "Pack_get p key =
     (case fmlookup (unsaved p) key of
        Some val \<Rightarrow> Inr val
      | None \<Rightarrow>
          (case DB_Get (c p) key of
             None \<Rightarrow> Inl (ErrObjectNotFound key)
           | Some val \<Rightarrow> Inr val))"

definition Pack_set :: "'v Pack \<Rightarrow> SHA256 \<Rightarrow> bytes \<Rightarrow> 'v Pack" where
  "Pack_set p key val = p\<lparr>unsaved := fmupd key val (unsaved p)\<rparr>"

text \<open>\<^verbatim>\<open>cipher.SumSHA256\<close> belongs to another repository: it is the parameter \<open>H\<close>.\<close>

definition Pack_add :: "(bytes \<Rightarrow> SHA256) \<Rightarrow> 'v Pack \<Rightarrow> bytes \<Rightarrow> 'v Pack \<times> SHA256" where
  "Pack_add H p val = (let key = H val in (Pack_set p key val, key))"

definition Pack_del :: "'v Pack \<Rightarrow> SHA256 \<Rightarrow> 'v Pack" where
  "Pack_del p key = p\<lparr>unsaved := fmdrop key (unsaved p)\<rparr>"

definition Pack_unpack :: "'v Pack \<Rightarrow> SHA256 \<Rightarrow> SHA256 \<Rightarrow> error + 'v" where
  "Pack_unpack p sch hash =
     (case Pack_get p hash of
        Inl e \<Rightarrow> Inl e
      | Inr val \<Rightarrow>
          (if flags p AND GoTypes \<noteq> 0
           then (case decode (reg p) sch val of
                   Inl e \<Rightarrow> Inl (ErrRegistry e)
                 | Inr v \<Rightarrow> Inr v)
           else Inl PanicNotImplemented))"

section \<open>The methods of Dynamic\<close>

text \<open>
  Modelled from the spec: \<^verbatim>\<open>Dynamic.Value\<close> is not in the sources. A Resolved reference
  returns its cached value without I/O; an Unresolved one is fetched through the Pack
  and decoded, and becomes Resolved; on an error the reference is left as it was.
\<close>

definition Dynamic_Value :: "'v Pack \<Rightarrow> 'v Dynamic \<Rightarrow> 'v Dynamic \<times> (error + 'v)" where
  "Dynamic_Value p dr =
     (let wn = (case walkNode dr of None \<Rightarrow> new_walkNode | Some w \<Rightarrow> w) in
      case wn_value wn of
        Some v \<Rightarrow> (dr, Inr v)
      | None \<Rightarrow>
          (case Pack_unpack p (SchemaRef dr) (Object dr) of
             Inl e \<Rightarrow> (dr, Inl e)
           | Inr v \<Rightarrow> (dr\<lparr>walkNode := Some (wn\<lparr>wn_value := Some v\<rparr>)\<rparr>, Inr v)))"

text \<open>
  Modelled from the spec: \<^verbatim>\<open>Dynamic.SetValue\<close> is not in the sources. It encodes the
  value through the registry, replaces the cached value and the target hash and marks
  the reference dirty; it writes nothing to the store.
\<close>

definition Dynamic_SetValue :: "(bytes \<Rightarrow> SHA256) \<Rightarrow> 'v Pack \<Rightarrow> 'v Dynamic \<Rightarrow> 'v \<Rightarrow> error + 'v Dynamic" where
  "Dynamic_SetValue H p dr obj =
     (case encode (reg p) obj of
        None \<Rightarrow> Inl (ErrRegistry UnregisteredType)
      | Some (sch, val) \<Rightarrow>
          (let wn = (case walkNode dr of None \<Rightarrow> new_walkNode | Some w \<Rightarrow> w) in
           Inr (dr\<lparr>SchemaRef := sch, Object := H val,
                   walkNode := Some (wn\<lparr>wn_value := Some obj, wn_dirty := True\<rparr>)\<rparr>)))"

text \<open>
  Modelled from the spec: \<^verbatim>\<open>Dynamic.Attach\<close> and \<^verbatim>\<open>Dynamic.Detach\<close> are not in the
  sources. They are bookkeeping: Attach records the index in the parent collection,
  Detach clears it. Both write through the \<^verbatim>\<open>walkNode\<close> pointer.
\<close>

definition Dynamic_Attach :: "'v Dynamic \<Rightarrow> nat \<Rightarrow> 'v Dynamic" where
  "Dynamic_Attach dr i = dr\<lparr>walkNode := map_option (\<lambda>wn. wn\<lparr>wn_index := Some i\<rparr>) (walkNode dr)\<rparr>"

definition Dynamic_Detach :: "'v Dynamic \<Rightarrow> 'v Dynamic" where
  "Dynamic_Detach dr = dr\<lparr>walkNode := map_option (\<lambda>wn. wn\<lparr>wn_index := None\<rparr>) (walkNode dr)\<rparr>"

text \<open>The position a reference records, if it records one.\<close>

definition recorded_index :: "'v Dynamic \<Rightarrow> nat option" where
  "recorded_index dr = (case walkNode dr of None \<Rightarrow> None | Some wn \<Rightarrow> wn_index wn)"

text \<open>A reference is materialized when its \<^verbatim>\<open>walkNode\<close> holds a native value.\<close>

definition materialized :: "'v Dynamic \<Rightarrow> bool" where
  "materialized dr = (case walkNode dr of None \<Rightarrow> False | Some wn \<Rightarrow> wn_value wn \<noteq> None)"

text \<open>
  What \<^verbatim>\<open>Value\<close> makes of an Unresolved reference whose object unpacks to \<open>v\<close>: the same
  reference with a fresh \<^verbatim>\<open>walkNode\<close> that holds \<open>v\<close>.
\<close>

abbreviation resolved_with :: "'v Dynamic \<Rightarrow> 'v \<Rightarrow> 'v Dynamic" where
  "resolved_with dr v \<equiv> dr\<lparr>walkNode := Some (new_walkNode\<lparr>wn_value := Some v\<rparr>)\<rparr>"

section \<open>Pop\<close>

text \<open>
  \<^verbatim>\<open>Pack.Pop\<close>: an empty list returns the zero Dynamic and a nil error. Otherwise the
  last reference is unpacked (through a fresh \<^verbatim>\<open>walkNode\<close>) or detached, its slot is
  cleared and the list is cut by one; an error that the unpacking returns is returned,
  and the entry is removed all the same. The panic of \<^verbatim>\<open>Pack.unpack\<close> is not a returned
  error: it leaves \<^verbatim>\<open>Pop\<close> at the call of \<^verbatim>\<open>Value\<close>, before the slot is cleared and the
  slice is cut, so the Pack is as it was (only the local copy of the last reference had
  been given a \<^verbatim>\<open>walkNode\<close>). An outcome with \<open>PanicNotImplemented\<close> stands for that
  panic: its Pack is the state at the panic, and nothing was returned to the caller.
\<close>

definition Pack_Pop :: "'v Pack \<Rightarrow> 'v Pack \<times> 'v Dynamic \<times> error option" where
  "Pack_Pop p =
     (let refs = Refs (r p); n = length refs in
      if n = 0 then (p, Dynamic_blank, None)
      else
        let dr = refs ! (n - 1);
            (dr', err) =
              (if walkNode dr = None
               then (case Dynamic_Value p (dr\<lparr>walkNode := Some new_walkNode\<rparr>) of
                       (d, Inl e) \<Rightarrow> (d, Some e)
                     | (d, Inr v) \<Rightarrow> (d, None))
               else (Dynamic_Detach dr, None))
        in if err = Some PanicNotImplemented then (p, dr', err)
           else
             let refs' = take (n - 1) (refs[n - 1 := Dynamic_blank])
             in (p\<lparr>r := (r p)\<lparr>Refs := refs'\<rparr>\<rparr>, dr', err))"

section \<open>Save\<close>

text \<open>
  The loop of \<^verbatim>\<open>Save\<close> after a successful transaction: every key of the write buffer
  is copied into the cache and deleted from the buffer. Go ranges over the map in an
  unspecified order; the keys are taken here in increasing order.
\<close>

fun migrate :: "SHA256 list \<Rightarrow> objects \<Rightarrow> objects \<Rightarrow> objects \<times> objects" where
  "migrate [] ca un = (ca, un)"
| "migrate (key # keys) ca un =
     (case fmlookup un key of
        None \<Rightarrow> migrate keys ca un
      | Some val \<Rightarrow> migrate keys (fmupd key val ca) (fmdrop key un))"

text \<open>
  \<^verbatim>\<open>Pack.Save\<close>. \<open>SetMap\<close> is \<^verbatim>\<open>tx.Objects().SetMap\<close> of the database, which is not in the
  sources: a parameter that writes the batch or fails. \<open>now\<close> is
  \<^verbatim>\<open>time.Now().UnixNano()\<close>. The result \<^verbatim>\<open>root\<close> is never assigned, so the zero
  \<^verbatim>\<open>RootPack\<close> is returned on every path; the Root itself is not written (the source
  has a TODO there) and its sequence number is not touched.
\<close>

definition Pack_Save ::
  "(objects \<Rightarrow> objects \<Rightarrow> string + objects) \<Rightarrow> int \<Rightarrow> 'v Pack \<Rightarrow> 'v Pack \<times> RootPack \<times> error option" where
  "Pack_Save SetMap now p =
     (if flags p AND ViewOnly \<noteq> 0 then (p, RootPack_zero, Some ErrViewOnlyTree)
      else
        let p1 = p\<lparr>r := (r p)\<lparr>Time := now\<rparr>\<rparr>;
            (db, err) = DB_Update (c p1)
                          (\<lambda>tx. if unsaved p1 = fmempty then Inr tx else SetMap tx (unsaved p1));
            p2 = p1\<lparr>c := db\<rparr>
        in case err of
             None \<Rightarrow>
               (let (ca, un) = migrate (sorted_list_of_fset (fmdom (unsaved p2))) (cache p2) (unsaved p2)
                in (p2\<lparr>unsaved := un, cache := ca\<rparr>, RootPack_zero, None))
           | Some e \<Rightarrow> (p2, RootPack_zero, Some e))"

text \<open>Two behaviours of the database: a batch write that succeeds, and one that fails.\<close>

definition SetMap_ok :: "objects \<Rightarrow> objects \<Rightarrow> string + objects" where
  "SetMap_ok tx m = Inr (tx ++\<^sub>f m)"

definition SetMap_fail :: "objects \<Rightarrow> objects \<Rightarrow> string + objects" where
  "SetMap_fail tx m = Inl ''write failed''"

text \<open>\<open>n\<close> calls of \<^verbatim>\<open>Save\<close> in a row, stopping at the first error.\<close>

fun Save_times ::
  "(objects \<Rightarrow> objects \<Rightarrow> string + objects) \<Rightarrow> int \<Rightarrow> nat \<Rightarrow> 'v Pack \<Rightarrow> 'v Pack \<times> error option" where
  "Save_times SetMap now 0 p = (p, None)"
| "Save_times SetMap now (Suc n) p =
     (case Pack_Save SetMap now p of
        (p', root, None) \<Rightarrow> Save_times SetMap now n p'
      | (p', root, Some e) \<Rightarrow> (p', Some e))"

section \<open>Refs, RefByIndex and init\<close>

text \<open>
  The loop of \<^verbatim>\<open>Pack.Refs\<close>: every reference whose \<^verbatim>\<open>walkNode\<close> is nil is unpacked in
  place; the first error stops the loop. (The source tests \<^verbatim>\<open>dr.walkNode\<close> with no
  \<^verbatim>\<open>dr\<close> in scope; it is read as \<^verbatim>\<open>p.r.Refs[i].walkNode\<close>, as \<^verbatim>\<open>RefByIndex\<close> has it.)
  \<^verbatim>\<open>Value\<close> reads only the buffer, the database, the flags and the registry of the Pack,
  which the loop does not change.
\<close>

fun Refs_loop :: "'v Pack \<Rightarrow> 'v Dynamic list \<Rightarrow> 'v Dynamic list \<times> error option" where
  "Refs_loop p [] = ([], None)"
| "Refs_loop p (dr # drs) =
     (if walkNode dr = None
      then (case Dynamic_Value p dr of
              (dr', Inl e) \<Rightarrow> (dr' # drs, Some e)
            | (dr', Inr v) \<Rightarrow> (case Refs_loop p drs of (drs', err) \<Rightarrow> (dr' # drs', err)))
      else (case Refs_loop p drs of (drs', err) \<Rightarrow> (dr # drs', err)))"

text \<open>
  \<^verbatim>\<open>Pack.Refs\<close>. The result \<^verbatim>\<open>drs\<close> is never assigned: the method returns the nil
  slice and makes the references of the Root unpacked.
\<close>

definition Pack_Refs :: "'v Pack \<Rightarrow> 'v Pack \<times> 'v Dynamic list \<times> error option" where
  "Pack_Refs p =
     (case Refs_loop p (Refs (r p)) of
        (refs', err) \<Rightarrow> (p\<lparr>r := (r p)\<lparr>Refs := refs'\<rparr>\<rparr>, [], err))"

definition Pack_init :: "'v Pack \<Rightarrow> 'v Pack \<times> error option" where
  "Pack_init p =
     (if flags p AND EntireTree \<noteq> 0
      then (case Pack_Refs p of (p', drs, err) \<Rightarrow> (p', err))
      else (p, None))"

definition Pack_RefByIndex :: "'v Pack \<Rightarrow> int \<Rightarrow> 'v Pack \<times> 'v Dynamic \<times> error option" where
  "Pack_RefByIndex p i =
     (if i < 0 \<or> i \<ge> int (length (Refs (r p))) then (p, Dynamic_blank, Some ErrIndexOutOfRange)
      else
        let k = nat i;
            (p', err) =
              (if walkNode (Refs (r p) ! k) = None
               then (case Dynamic_Value p (Refs (r p) ! k) of
                       (d, Inl e) \<Rightarrow> (p\<lparr>r := (r p)\<lparr>Refs := (Refs (r p))[k := d]\<rparr>\<rparr>, Some e)
                     | (d, Inr v) \<Rightarrow> (p\<lparr>r := (r p)\<lparr>Refs := (Refs (r p))[k := d]\<rparr>\<rparr>, None))
               else (p, None))
        in (p', Refs (r p') ! k, err))"

section \<open>Append\<close>

text \<open>
  The first loop of \<^verbatim>\<open>Pack.Append\<close>: a Dynamic with a fresh \<^verbatim>\<open>walkNode\<close> for every
  object; the first error of \<^verbatim>\<open>SetValue\<close> ends the method.
\<close>

fun Append_build ::
  "(bytes \<Rightarrow> SHA256) \<Rightarrow> 'v Pack \<Rightarrow> 'v list \<Rightarrow> 'v Dynamic list \<Rightarrow> error + 'v Dynamic list" where
  "Append_build H p [] drs = Inr drs"
| "Append_build H p (obj # objs) drs =
     (case Dynamic_SetValue H p (Dynamic_blank\<lparr>walkNode := Some new_walkNode\<rparr>) obj of
        Inl e \<Rightarrow> Inl e
      | Inr dr \<Rightarrow> Append_build H p objs (drs @ [dr]))"

text \<open>
  The second loop: every reference that has a \<^verbatim>\<open>walkNode\<close> is attached at its index.
  The loop variable is a copy of the Dynamic, and Attach writes through the
  \<^verbatim>\<open>walkNode\<close> pointer the copy shares with the slot.
\<close>

fun reattach :: "nat \<Rightarrow> 'v Dynamic list \<Rightarrow> 'v Dynamic list" where
  "reattach i [] = []"
| "reattach i (dr # drs) =
     (if walkNode dr \<noteq> None then Dynamic_Attach dr i else dr) # reattach (Suc i) drs"

text \<open>\<^verbatim>\<open>Pack.Append\<close> (the source has no final \<^verbatim>\<open>return\<close>; the nil \<^verbatim>\<open>err\<close> is returned).\<close>

definition Pack_Append :: "(bytes \<Rightarrow> SHA256) \<Rightarrow> 'v Pack \<Rightarrow> 'v list \<Rightarrow> 'v Pack \<times> error option" where
  "Pack_Append H p objs =
     (if length objs = 0 then (p, None)
      else
        (case Append_build H p objs [] of
           Inl e \<Rightarrow> (p, Some e)
         | Inr drs \<Rightarrow> (p\<lparr>r := (r p)\<lparr>Refs := reattach 0 (Refs (r p) @ drs)\<rparr>\<rparr>, None)))"

section \<open>The Container of package skyobjects\<close>

text \<open>
  \<^verbatim>\<open>Container.Save\<close> wraps the data and its schema key in an \<^verbatim>\<open>href\<close>, serialises it
  and hands it to \<^verbatim>\<open>AddAutoKey\<close> of the database; \<^verbatim>\<open>Container.Get\<close> reads the bytes
  back and unwraps them. The database (\<^verbatim>\<open>data.DB\<close>) is not in the sources and the
  encoder belongs to another repository: \<open>AddAutoKey\<close>, \<open>Get\<close>, \<open>Serialize\<close> and
  \<open>DeserializeRaw\<close> are parameters.
\<close>

record href =
  SchemaKey :: SHA256
  Data :: bytes

definition Container_Save ::
  "('db \<Rightarrow> bytes \<Rightarrow> 'db \<times> SHA256) \<Rightarrow> (href \<Rightarrow> bytes) \<Rightarrow> 'db \<Rightarrow> SHA256 \<Rightarrow> bytes \<Rightarrow> 'db \<times> SHA256" where
  "Container_Save AddAutoKey Serialize ds schemaKey dat =
     AddAutoKey ds (Serialize \<lparr>SchemaKey = schemaKey, Data = dat\<rparr>)"

definition Container_Get ::
  "('db \<Rightarrow> SHA256 \<Rightarrow> bytes option) \<Rightarrow> (bytes \<Rightarrow> href) \<Rightarrow> 'db \<Rightarrow> SHA256 \<Rightarrow> error + SHA256 \<times> bytes" where
  "Container_Get Get DeserializeRaw ds key =
     (case Get ds key of
        None \<Rightarrow> Inl (ErrNoObjectFound key)
      | Some hrefData \<Rightarrow> (let h = DeserializeRaw hrefData in Inr (SchemaKey h, Data h)))"

section \<open>Example values\<close>

text \<open>
  A registry of natural numbers below 256 under schema 1, each encoded as one byte; a
  stand-in for the hash function that is injective on these encodings; an empty Pack.
\<close>

definition ex_reg :: "nat Registry" where
  "ex_reg = \<lparr>encode = (\<lambda>n. if n < 256 then Some (1, [of_nat n]) else None),
            decode = (\<lambda>sch val. if sch \<noteq> 1 then Inl UnknownSchema
                                else (case val of [b] \<Rightarrow> Inr (unat b) | _ \<Rightarrow> Inl DecodeError))\<rparr>"

definition ex_H :: "bytes \<Rightarrow> SHA256" where
  "ex_H val = (case val of [b] \<Rightarrow> 1 + ucast b | _ \<Rightarrow> 1000 + of_nat (length val))"

definition ex_pack :: "nat Pack" where
  "ex_pack = \<lparr>c = fmempty, r = \<lparr>Seq = 0, Time = 0, Refs = []\<rparr>, reg = ex_reg,
             flags = Default, unsaved = fmempty, cache = fmempty\<rparr>"

text \<open>
  The empty Pack with the bytes of the value 7 staged; the same opened view-only
  (\<^verbatim>\<open>ViewOnly | GoTypes\<close>); a Pack over a Root of two Unresolved references whose
  objects are in the database; the same opened with \<^verbatim>\<open>EntireTree | GoTypes\<close>.
\<close>

definition ex_staged :: "nat Pack" where
  "ex_staged = ex_pack\<lparr>unsaved := fmupd 8 [7] fmempty\<rparr>"

definition ex_view :: "nat Pack" where
  "ex_view = ex_staged\<lparr>flags := 24\<rparr>"

definition ex_lazy :: "nat Pack" where
  "ex_lazy = ex_pack\<lparr>c := fmupd 8 [7] (fmupd 10 [9] fmempty),
                      r := \<lparr>Seq = 0, Time = 0,
                            Refs = [\<lparr>SchemaRef = 1, Object = 8, walkNode = None\<rparr>,
                                    \<lparr>SchemaRef = 1, Object = 10, walkNode = None\<rparr>]\<rparr>\<rparr>"

definition ex_eager :: "nat Pack" where
  "ex_eager = ex_lazy\<lparr>flags := 18\<rparr>"

text \<open>The same Root in a Pack opened with no flag at all (so without \<^verbatim>\<open>GoTypes\<close>).\<close>

definition ex_nogo :: "nat Pack" where
  "ex_nogo = ex_lazy\<lparr>flags := 0\<rparr>"

section \<open>Evaluating the examples\<close>

lemmas ex_defs = ex_pack_def ex_staged_def ex_view_def ex_lazy_def ex_eager_def ex_reg_def ex_H_def
  ViewOnly_def Default_def GoTypes_def EntireTree_def

lemma fmupd_not_empty: "fmupd k v m \<noteq> fmempty"
proof
  assume "fmupd k v m = fmempty"
  then have "fmlookup (fmupd k v m) k = fmlookup fmempty k" by simp
  then show False by simp
qed

section \<open>Properties of Pop\<close>

lemma Dynamic_Value_Object:
  "Object (fst (Dynamic_Value p dr)) = Object dr \<and> SchemaRef (fst (Dynamic_Value p dr)) = SchemaRef dr"
  by (simp add: Dynamic_Value_def Let_def split: option.splits sum.splits)

lemma Dynamic_Detach_Object:
  "Object (Dynamic_Detach dr) = Object dr \<and> SchemaRef (Dynamic_Detach dr) = SchemaRef dr"
  by (simp add: Dynamic_Detach_def)

lemma Dynamic_Value_fresh:
  "walkNode dr = None \<or> walkNode dr = Some new_walkNode \<Longrightarrow>
   Dynamic_Value p dr =
     (case Pack_unpack p (SchemaRef dr) (Object dr) of
        Inl e \<Rightarrow> (dr, Inl e)
      | Inr v \<Rightarrow> (dr\<lparr>walkNode := Some (new_walkNode\<lparr>wn_value := Some v\<rparr>)\<rparr>, Inr v))"
  by (auto simp add: Dynamic_Value_def Let_def new_walkNode_def split: sum.splits)

lemma Pack_unpack_panic:
  "(Pack_unpack p sch h = Inl PanicNotImplemented)
     = (flags p AND GoTypes = 0 \<and> \<not> isl (Pack_get p h))"
  by (auto simp add: Pack_unpack_def Pack_get_def DB_Get_def split: sum.splits option.splits)

lemma Pack_Pop_err:
  "Refs (r p) \<noteq> [] \<Longrightarrow>
   snd (snd (Pack_Pop p)) =
     (if walkNode (last (Refs (r p))) = None
      then (case Pack_unpack p (SchemaRef (last (Refs (r p)))) (Object (last (Refs (r p)))) of
              Inl e \<Rightarrow> Some e | Inr v \<Rightarrow> None)
      else None)"
  by (auto simp add: Pack_Pop_def Let_def last_conv_nth Dynamic_Value_fresh
           split: sum.splits prod.splits)

lemma Pack_Pop_panic:
  "snd (snd (Pack_Pop p)) = Some PanicNotImplemented \<Longrightarrow> fst (Pack_Pop p) = p"
  by (auto simp add: Pack_Pop_def Let_def split: prod.splits if_splits)

lemma Pack_Pop_Refs:
  "snd (snd (Pack_Pop p)) \<noteq> Some PanicNotImplemented \<Longrightarrow>
   Refs (r (fst (Pack_Pop p))) = butlast (Refs (r p))"
  by (auto simp add: Pack_Pop_def Let_def butlast_conv_take split: prod.splits if_splits)

lemma Pack_Pop_Object:
  "Refs (r p) \<noteq> [] \<Longrightarrow> Object (fst (snd (Pack_Pop p))) = Object (last (Refs (r p)))"
  using Dynamic_Value_Object [of p "(last (Refs (r p)))\<lparr>walkNode := Some new_walkNode\<rparr>"]
  by (auto simp add: Pack_Pop_def Let_def last_conv_nth Dynamic_Detach_Object
           split: prod.splits sum.splits)

text \<open>
  Claim C8. For every Pack whose Root has an empty reference list, Pop returns the
  blank (zero-valued) Dynamic and a nil error, and the reference list stays empty (the
  Pack is not changed at all).
\<close>

theorem C8_Pop_empty:
  assumes "Refs (r p) = []"
  shows "Pack_Pop p = (p, Dynamic_blank, None) \<and> Refs (r (fst (Pack_Pop p))) = []"
  using assms by (simp add: Pack_Pop_def)

theorem C8_Pop_empty_witness:
  "Refs (r ex_pack) = [] \<and> Pack_Pop ex_pack = (ex_pack, Dynamic_blank, None)
     \<and> Refs (r (fst (Pack_Pop ex_pack))) = []"
  using C8_Pop_empty [of ex_pack] by (simp add: ex_pack_def)

text \<open>
  Claim C10, as amended. For every Pack whose Root has a non-empty reference list of
  length n: Pop panics with "not implemented yet" exactly when the last entry is
  Unresolved, the \<^verbatim>\<open>GoTypes\<close> flag is not set and the object of the entry is found;
  when it does not panic (in particular whenever \<^verbatim>\<open>GoTypes\<close> is set), it leaves a list
  of length n - 1 whose entries at positions 0 to n - 2 are the entries that were there
  (so their hashes are unchanged), also when the unpacking of the last entry returns an
  error, and the Dynamic returned carries the hash of the removed entry; when it
  panics, the Pack and its list are as they were.
\<close>

theorem C10_Pop_frame:
  assumes "Refs (r p) \<noteq> []"
  shows "(snd (snd (Pack_Pop p)) = Some PanicNotImplemented)
           = (walkNode (last (Refs (r p))) = None \<and> flags p AND GoTypes = 0
              \<and> \<not> isl (Pack_get p (Object (last (Refs (r p))))))
       \<and> (snd (snd (Pack_Pop p)) \<noteq> Some PanicNotImplemented \<longrightarrow>
            length (Refs (r (fst (Pack_Pop p)))) = length (Refs (r p)) - 1
          \<and> (\<forall>i < length (Refs (r p)) - 1.
               Refs (r (fst (Pack_Pop p))) ! i = Refs (r p) ! i
             \<and> Object (Refs (r (fst (Pack_Pop p))) ! i) = Object (Refs (r p) ! i))
          \<and> Object (fst (snd (Pack_Pop p))) = Object (last (Refs (r p))))
       \<and> (snd (snd (Pack_Pop p)) = Some PanicNotImplemented \<longrightarrow> fst (Pack_Pop p) = p)"
proof -
  let ?d = "last (Refs (r p))"
  have panic: "(snd (snd (Pack_Pop p)) = Some PanicNotImplemented)
           = (walkNode ?d = None \<and> flags p AND GoTypes = 0 \<and> \<not> isl (Pack_get p (Object ?d)))"
    using Pack_Pop_err [OF assms] Pack_unpack_panic [of p "SchemaRef ?d" "Object ?d"]
    by (auto split: sum.splits)
  have frame: "length (Refs (r (fst (Pack_Pop p)))) = length (Refs (r p)) - 1
          \<and> (\<forall>i < length (Refs (r p)) - 1.
               Refs (r (fst (Pack_Pop p))) ! i = Refs (r p) ! i
             \<and> Object (Refs (r (fst (Pack_Pop p))) ! i) = Object (Refs (r p) ! i))"
    if "snd (snd (Pack_Pop p)) \<noteq> Some PanicNotImplemented"
    using Pack_Pop_Refs [OF that] by (simp add: nth_butlast)
  show ?thesis using panic frame Pack_Pop_Object [OF assms] Pack_Pop_panic [of p] by blast
qed

theorem C10_Pop_frame_witness:
  "Refs (r ex_lazy) \<noteq> []
   \<and> snd (snd (Pack_Pop ex_lazy)) \<noteq> Some PanicNotImplemented
   \<and> length (Refs (r (fst (Pack_Pop ex_lazy)))) = 1
   \<and> Object (Refs (r (fst (Pack_Pop ex_lazy))) ! 0) = 8
   \<and> Object (fst (snd (Pack_Pop ex_lazy))) = 10
   \<and> snd (snd (Pack_Pop ex_nogo)) = Some PanicNotImplemented
   \<and> fst (Pack_Pop ex_nogo) = ex_nogo"
proof -
  have h: "Refs (r ex_lazy) \<noteq> []" by (simp add: ex_defs)
  have g: "Refs (r ex_nogo) \<noteq> []" by (simp add: ex_nogo_def ex_defs)
  have ok: "\<not> (walkNode (last (Refs (r ex_lazy))) = None \<and> flags ex_lazy AND GoTypes = 0
              \<and> \<not> isl (Pack_get ex_lazy (Object (last (Refs (r ex_lazy))))))"
    by (simp add: ex_defs)
  have bad: "walkNode (last (Refs (r ex_nogo))) = None \<and> flags ex_nogo AND GoTypes = 0
              \<and> \<not> isl (Pack_get ex_nogo (Object (last (Refs (r ex_nogo)))))"
    by (simp add: ex_nogo_def ex_defs Pack_get_def DB_Get_def)
  have len: "length (Refs (r ex_lazy)) = 2" "Object (Refs (r ex_lazy) ! 0) = 8"
    "Object (last (Refs (r ex_lazy))) = 10"
    by (simp_all add: ex_defs)
  show ?thesis using h ok bad len C10_Pop_frame [OF h] C10_Pop_frame [OF g] by simp
qed

text \<open>
  Claim C10 as it was stated fails: on the Pack opened with no flag over two Unresolved
  references whose objects are in the database, Pop panics in \<^verbatim>\<open>Pack.unpack\<close> and the
  list still has its two entries, not one.
\<close>

theorem C10_Pop_frame_counterexample:
  "Refs (r ex_nogo) \<noteq> []
   \<and> length (Refs (r ex_nogo)) = 2
   \<and> snd (snd (Pack_Pop ex_nogo)) = Some PanicNotImplemented
   \<and> length (Refs (r (fst (Pack_Pop ex_nogo)))) = 2
   \<and> length (Refs (r (fst (Pack_Pop ex_nogo)))) \<noteq> length (Refs (r ex_nogo)) - 1"
proof -
  have e: "Pack_unpack ex_nogo 1 10 = Inl PanicNotImplemented"
    by (simp add: ex_nogo_def ex_defs Pack_unpack_def Pack_get_def DB_Get_def)
  have p: "Pack_Pop ex_nogo
           = (ex_nogo, \<lparr>SchemaRef = 1, Object = 10, walkNode = Some new_walkNode\<rparr>,
              Some PanicNotImplemented)"
    using e by (simp add: Pack_Pop_def Let_def Dynamic_Value_fresh)
               (simp add: ex_nogo_def ex_defs)
  show ?thesis by (simp add: p) (simp add: ex_nogo_def ex_defs)
qed

section \<open>Properties of RefByIndex\<close>

lemma Dynamic_Value_error:
  "snd (Dynamic_Value p dr) = Inl e \<Longrightarrow> e \<noteq> ErrIndexOutOfRange \<and> e \<noteq> ErrViewOnlyTree"
  by (auto simp add: Dynamic_Value_def Pack_unpack_def Pack_get_def Let_def
           split: option.splits sum.splits if_splits)

lemma Dynamic_Value_resolved:
  "snd (Dynamic_Value p dr) = Inr v \<Longrightarrow>
     \<exists>wn. walkNode (fst (Dynamic_Value p dr)) = Some wn \<and> wn_value wn = Some v"
  by (auto simp add: Dynamic_Value_def Let_def new_walkNode_def split: option.splits sum.splits)

lemma Dynamic_Value_failed:
  "snd (Dynamic_Value p dr) = Inl e \<Longrightarrow> fst (Dynamic_Value p dr) = dr"
  by (auto simp add: Dynamic_Value_def Let_def split: option.splits sum.splits)

lemma Dynamic_Value_materialized:
  "snd (Dynamic_Value p dr) = Inr v \<Longrightarrow>
     walkNode (fst (Dynamic_Value p dr)) \<noteq> None \<and> materialized (fst (Dynamic_Value p dr))"
  using Dynamic_Value_resolved [of p dr v] by (auto simp add: materialized_def)

lemma RefByIndex_resolved:
  "0 \<le> i \<Longrightarrow> i < int (length (Refs (r p))) \<Longrightarrow> walkNode (Refs (r p) ! nat i) \<noteq> None \<Longrightarrow>
   Pack_RefByIndex p i = (p, Refs (r p) ! nat i, None)"
  by (auto simp add: Pack_RefByIndex_def Let_def)

lemma RefByIndex_unresolved:
  "0 \<le> i \<Longrightarrow> i < int (length (Refs (r p))) \<Longrightarrow> walkNode (Refs (r p) ! nat i) = None \<Longrightarrow>
   Pack_RefByIndex p i =
     (p\<lparr>r := (r p)\<lparr>Refs := (Refs (r p))[nat i := fst (Dynamic_Value p (Refs (r p) ! nat i))]\<rparr>\<rparr>,
      fst (Dynamic_Value p (Refs (r p) ! nat i)),
      (case snd (Dynamic_Value p (Refs (r p) ! nat i)) of Inl e \<Rightarrow> Some e | Inr v \<Rightarrow> None))"
  by (cases "Dynamic_Value p (Refs (r p) ! nat i)")
     (auto simp add: Pack_RefByIndex_def Let_def split: sum.splits)

text \<open>
  Claim C9. For every Pack and every integer i, RefByIndex fails with
  \<^verbatim>\<open>ErrIndexOutOfRange\<close> if and only if i is outside [0, len(refs)). For i inside the
  range the Dynamic returned is the reference at position i of the Root (with the hash
  and schema it had); when that reference is already unpacked the call returns it with
  a nil error and changes nothing, and otherwise the only error it can return is the
  error of resolving that reference.
\<close>

theorem C9_RefByIndex_range:
  "(snd (snd (Pack_RefByIndex p i)) = Some ErrIndexOutOfRange)
      = (i < 0 \<or> int (length (Refs (r p))) \<le> i)
   \<and> (0 \<le> i \<and> i < int (length (Refs (r p))) \<longrightarrow>
        fst (snd (Pack_RefByIndex p i)) = Refs (r (fst (Pack_RefByIndex p i))) ! nat i
      \<and> Object (fst (snd (Pack_RefByIndex p i))) = Object (Refs (r p) ! nat i)
      \<and> SchemaRef (fst (snd (Pack_RefByIndex p i))) = SchemaRef (Refs (r p) ! nat i)
      \<and> (walkNode (Refs (r p) ! nat i) \<noteq> None \<longrightarrow>
           Pack_RefByIndex p i = (p, Refs (r p) ! nat i, None))
      \<and> (walkNode (Refs (r p) ! nat i) = None \<longrightarrow>
           snd (snd (Pack_RefByIndex p i))
             = (case snd (Dynamic_Value p (Refs (r p) ! nat i)) of Inl e \<Rightarrow> Some e | Inr v \<Rightarrow> None)))"
proof -
  let ?n = "int (length (Refs (r p)))"
  let ?d = "Refs (r p) ! nat i"
  have out: "i < 0 \<or> ?n \<le> i \<Longrightarrow> snd (snd (Pack_RefByIndex p i)) = Some ErrIndexOutOfRange"
    by (auto simp add: Pack_RefByIndex_def)
  have res: "0 \<le> i \<Longrightarrow> i < ?n \<Longrightarrow> walkNode ?d \<noteq> None \<Longrightarrow> Pack_RefByIndex p i = (p, ?d, None)"
    by (auto simp add: Pack_RefByIndex_def Let_def)
  have unres: "0 \<le> i \<Longrightarrow> i < ?n \<Longrightarrow> walkNode ?d = None \<Longrightarrow>
      Pack_RefByIndex p i =
        (p\<lparr>r := (r p)\<lparr>Refs := (Refs (r p))[nat i := fst (Dynamic_Value p ?d)]\<rparr>\<rparr>,
         fst (Dynamic_Value p ?d),
         (case snd (Dynamic_Value p ?d) of Inl e \<Rightarrow> Some e | Inr v \<Rightarrow> None))"
    by (cases "Dynamic_Value p ?d") (auto simp add: Pack_RefByIndex_def Let_def split: sum.splits)
  have inr: "0 \<le> i \<Longrightarrow> i < ?n \<Longrightarrow> snd (snd (Pack_RefByIndex p i)) \<noteq> Some ErrIndexOutOfRange"
  proof (cases "walkNode ?d = None")
    case True
    assume "0 \<le> i" "i < ?n"
    then show ?thesis
      using True unres Dynamic_Value_error [of p ?d]
      by (auto split: sum.splits)
  next
    case False
    assume "0 \<le> i" "i < ?n"
    then show ?thesis using False res by simp
  qed
  have iff: "(snd (snd (Pack_RefByIndex p i)) = Some ErrIndexOutOfRange) = (i < 0 \<or> ?n \<le> i)"
    using out inr by (cases "i < 0 \<or> ?n \<le> i") auto
  have inside: "0 \<le> i \<and> i < ?n \<longrightarrow>
        fst (snd (Pack_RefByIndex p i)) = Refs (r (fst (Pack_RefByIndex p i))) ! nat i
      \<and> Object (fst (snd (Pack_RefByIndex p i))) = Object ?d
      \<and> SchemaRef (fst (snd (Pack_RefByIndex p i))) = SchemaRef ?d"
  proof (cases "walkNode ?d = None")
    case True
    then show ?thesis using unres Dynamic_Value_Object [of p ?d] by auto
  next
    case False
    then show ?thesis using res by auto
  qed
  show ?thesis using iff inside res unres by auto
qed

theorem C9_RefByIndex_range_witness:
  "snd (snd (Pack_RefByIndex ex_lazy 2)) = Some ErrIndexOutOfRange
   \<and> snd (snd (Pack_RefByIndex ex_lazy (- 1))) = Some ErrIndexOutOfRange
   \<and> snd (snd (Pack_RefByIndex ex_lazy 1)) \<noteq> Some ErrIndexOutOfRange
   \<and> Object (fst (snd (Pack_RefByIndex ex_lazy 1))) = 10
   \<and> fst (snd (Pack_RefByIndex ex_lazy 1)) = Refs (r (fst (Pack_RefByIndex ex_lazy 1))) ! 1"
proof -
  have len: "int (length (Refs (r ex_lazy))) = 2" by (simp add: ex_defs)
  have obj: "Object (Refs (r ex_lazy) ! Suc 0) = 10" by (simp add: ex_defs)
  show ?thesis
    using C9_RefByIndex_range [of ex_lazy 2] C9_RefByIndex_range [of ex_lazy "- 1"]
      C9_RefByIndex_range [of ex_lazy 1]
    by (auto simp add: len obj)
qed

section \<open>Properties of Save\<close>

lemma migrate_eq:
  "migrate ks ca un = (ca ++\<^sub>f fmrestrict_set (set ks) un, fmdrop_set (set ks) un)"
proof (induction ks arbitrary: ca un)
  case Nil
  show ?case by simp
next
  case (Cons k ks)
  show ?case
  proof (cases "fmlookup un k")
    case None
    have a: "fmrestrict_set (insert k (set ks)) un = fmrestrict_set (set ks) un"
      using None by (intro fmap_ext) auto
    have b: "fmdrop_set (insert k (set ks)) un = fmdrop_set (set ks) un"
      using None by (intro fmap_ext) auto
    show ?thesis using None Cons.IH a b by simp
  next
    case (Some v)
    have a: "fmupd k v ca ++\<^sub>f fmrestrict_set (set ks) (fmdrop k un)
           = ca ++\<^sub>f fmrestrict_set (insert k (set ks)) un"
      using Some by (intro fmap_ext) (auto simp: fmlookup_dom_iff)
    have b: "fmdrop_set (set ks) (fmdrop k un) = fmdrop_set (insert k (set ks)) un"
      by (intro fmap_ext) auto
    show ?thesis using Some Cons.IH a b by simp
  qed
qed

lemma migrate_all:
  "migrate (sorted_list_of_fset (fmdom un)) ca un = (ca ++\<^sub>f un, fmempty)"
proof -
  have a: "fmrestrict_set (fset (fmdom un)) un = un"
    by (intro fmap_ext) (auto simp: fmlookup_dom_iff)
  have b: "fmdrop_set (fset (fmdom un)) un = fmempty"
    by (intro fmap_ext) (auto simp: fmlookup_dom_iff)
  show ?thesis by (simp add: migrate_eq a b)
qed

lemma migrate_fmempty: "migrate ks ca fmempty = (ca, fmempty)"
  by (induction ks) simp_all

lemma Pack_Save_ViewOnly:
  "flags p AND ViewOnly \<noteq> 0 \<Longrightarrow> Pack_Save SetMap now p = (p, RootPack_zero, Some ErrViewOnlyTree)"
  by (simp add: Pack_Save_def)

lemma Pack_Save_empty:
  "flags p AND ViewOnly = 0 \<Longrightarrow> unsaved p = fmempty \<Longrightarrow>
   Pack_Save SetMap now p = (p\<lparr>r := (r p)\<lparr>Time := now\<rparr>\<rparr>, RootPack_zero, None)"
  by (simp add: Pack_Save_def DB_Update_def Let_def migrate_fmempty)

lemma Pack_Save_failure:
  "flags p AND ViewOnly = 0 \<Longrightarrow> unsaved p \<noteq> fmempty \<Longrightarrow> SetMap (c p) (unsaved p) = Inl e \<Longrightarrow>
   Pack_Save SetMap now p = (p\<lparr>r := (r p)\<lparr>Time := now\<rparr>\<rparr>, RootPack_zero, Some (ErrDB e))"
  by (simp add: Pack_Save_def DB_Update_def Let_def)

lemma Pack_Save_success:
  "flags p AND ViewOnly = 0 \<Longrightarrow> unsaved p \<noteq> fmempty \<Longrightarrow> SetMap (c p) (unsaved p) = Inr db \<Longrightarrow>
   Pack_Save SetMap now p =
     (p\<lparr>r := (r p)\<lparr>Time := now\<rparr>, c := db, unsaved := fmempty, cache := cache p ++\<^sub>f unsaved p\<rparr>,
      RootPack_zero, None)"
  by (simp add: Pack_Save_def DB_Update_def Let_def migrate_all)

lemma Pack_Save_cases:
  obtains (view) "flags p AND ViewOnly \<noteq> 0"
  | (empty) "flags p AND ViewOnly = 0" "unsaved p = fmempty"
  | (failure) e where "flags p AND ViewOnly = 0" "unsaved p \<noteq> fmempty" "SetMap (c p) (unsaved p) = Inl e"
  | (success) db where "flags p AND ViewOnly = 0" "unsaved p \<noteq> fmempty" "SetMap (c p) (unsaved p) = Inr db"
  by (cases "SetMap (c p) (unsaved p)") blast+

text \<open>
  Claim C1. For every Pack and every behaviour of the database: if Save returns an
  error (a failed transaction, or the view-only refusal) the write buffer after the
  call equals the write buffer before it, and so do the cache and the database; if
  Save succeeds, the write buffer is empty and every staged entry is in the read cache
  (the cache is the old cache overwritten with the buffer). A failing batch write of a
  non-empty buffer does make Save return that error, and a successful one makes it
  return nil with the database the write produced.
\<close>

theorem C1_Save_atomic:
  assumes "Pack_Save SetMap now p = (p', root, err)"
  shows "(err \<noteq> None \<longrightarrow> unsaved p' = unsaved p \<and> cache p' = cache p \<and> c p' = c p)
       \<and> (err = None \<longrightarrow> unsaved p' = fmempty
            \<and> cache p' = cache p ++\<^sub>f unsaved p
            \<and> (\<forall>key val. fmlookup (unsaved p) key = Some val \<longrightarrow> fmlookup (cache p') key = Some val))
       \<and> (flags p AND ViewOnly = 0 \<and> unsaved p \<noteq> fmempty \<longrightarrow>
            (case SetMap (c p) (unsaved p) of
               Inl e \<Rightarrow> err = Some (ErrDB e)
             | Inr db \<Rightarrow> err = None \<and> c p' = db))"
proof (cases rule: Pack_Save_cases [where p = p and SetMap = SetMap])
  case view
  then show ?thesis using assms by (auto simp add: Pack_Save_ViewOnly)
next
  case empty
  then show ?thesis using assms by (auto simp add: Pack_Save_empty)
next
  case (failure e)
  then show ?thesis using assms by (auto simp add: Pack_Save_failure)
next
  case (success db)
  then show ?thesis using assms by (auto simp add: Pack_Save_success fmlookup_dom_iff)
qed

theorem C1_Save_atomic_witness:
  "Pack_Save SetMap_fail 5 ex_staged
     = (ex_staged\<lparr>r := (r ex_staged)\<lparr>Time := 5\<rparr>\<rparr>, RootPack_zero, Some (ErrDB ''write failed''))
   \<and> unsaved (ex_staged\<lparr>r := (r ex_staged)\<lparr>Time := 5\<rparr>\<rparr>) = unsaved ex_staged
   \<and> Pack_Save SetMap_ok 5 ex_staged
     = (ex_pack\<lparr>r := (r ex_pack)\<lparr>Time := 5\<rparr>, c := fmupd 8 [7] fmempty, cache := fmupd 8 [7] fmempty\<rparr>,
        RootPack_zero, None)
   \<and> unsaved (ex_pack\<lparr>r := (r ex_pack)\<lparr>Time := 5\<rparr>, c := fmupd 8 [7] fmempty,
                       cache := fmupd 8 [7] fmempty\<rparr>) = fmempty
   \<and> fmlookup (unsaved ex_staged) 8 = Some [7]
   \<and> fmlookup (cache (ex_pack\<lparr>r := (r ex_pack)\<lparr>Time := 5\<rparr>, c := fmupd 8 [7] fmempty,
                       cache := fmupd 8 [7] fmempty\<rparr>)) 8 = Some [7]"
proof -
  have v: "flags ex_staged AND ViewOnly = 0" by (simp add: ex_defs)
  have n: "unsaved ex_staged \<noteq> fmempty" by (simp add: ex_defs fmupd_not_empty)
  have f: "Pack_Save SetMap_fail 5 ex_staged
     = (ex_staged\<lparr>r := (r ex_staged)\<lparr>Time := 5\<rparr>\<rparr>, RootPack_zero, Some (ErrDB ''write failed''))"
    using Pack_Save_failure [OF v n, of SetMap_fail "''write failed''" 5]
    by (simp add: SetMap_fail_def)
  have s: "Pack_Save SetMap_ok 5 ex_staged
     = (ex_pack\<lparr>r := (r ex_pack)\<lparr>Time := 5\<rparr>, c := fmupd 8 [7] fmempty, cache := fmupd 8 [7] fmempty\<rparr>,
        RootPack_zero, None)"
    using Pack_Save_success [OF v n, of SetMap_ok "fmupd 8 [7] fmempty" 5]
    by (simp add: SetMap_ok_def ex_defs)
  show ?thesis using f s C1_Save_atomic [OF f] C1_Save_atomic [OF s]
    by (simp add: ex_staged_def ex_pack_def)
qed

text \<open>
  Claim C7. For every Pack whose flags contain \<^verbatim>\<open>ViewOnly\<close>, Save returns
  \<^verbatim>\<open>ErrViewOnlyTree\<close> and neither the Pack nor the database behind it is changed,
  whatever the database would have done with a write.
\<close>

theorem C7_Save_ViewOnly:
  assumes "flags p AND ViewOnly \<noteq> 0"
  shows "Pack_Save SetMap now p = (p, RootPack_zero, Some ErrViewOnlyTree)
       \<and> snd (snd (Pack_Save SetMap now p)) = Some ErrViewOnlyTree
       \<and> c (fst (Pack_Save SetMap now p)) = c p"
  using assms by (simp add: Pack_Save_ViewOnly)

theorem C7_Save_ViewOnly_witness:
  "flags ex_view AND ViewOnly \<noteq> 0
   \<and> Pack_Save SetMap_ok 5 ex_view = (ex_view, RootPack_zero, Some ErrViewOnlyTree)
   \<and> c (fst (Pack_Save SetMap_ok 5 ex_view)) = c ex_view"
proof -
  have h: "flags ex_view AND ViewOnly \<noteq> 0" by (simp add: ex_defs)
  show ?thesis using h C7_Save_ViewOnly [OF h, of SetMap_ok 5] by simp
qed

text \<open>
  The sequence number of the Root is the same after Save as before, on every path, and
  so after any number of calls.
\<close>

lemma Pack_Save_Seq: "Seq (r (fst (Pack_Save SetMap now p))) = Seq (r p)"
  by (cases rule: Pack_Save_cases [where p = p and SetMap = SetMap])
     (simp_all add: Pack_Save_ViewOnly Pack_Save_empty Pack_Save_failure Pack_Save_success)

lemma Save_times_Seq: "Seq (r (fst (Save_times SetMap now n p))) = Seq (r p)"
proof (induction n arbitrary: p)
  case 0
  show ?case by simp
next
  case (Suc n)
  obtain p' root err where s: "Pack_Save SetMap now p = (p', root, err)"
    by (cases "Pack_Save SetMap now p") auto
  have "Seq (r p') = Seq (r p)" using Pack_Save_Seq [of SetMap now p] s by simp
  then show ?case using s Suc.IH [of p'] by (cases err) simp_all
qed

text \<open>
  Claim C2 (the code does not do this). The claim is that N successful calls of Save
  take the sequence number from s0 to s0 + N. Three calls on the empty Pack, whose Root
  has sequence number 0, all succeed and leave the sequence number at 0, not 3: Save
  stamps the time only, although its comment announces the timestamp and the sequence
  number.
\<close>

theorem C2_Save_Seq_unchanged:
  "snd (Save_times SetMap_ok 5 3 ex_pack) = None
   \<and> Seq (r ex_pack) = 0
   \<and> Seq (r (fst (Save_times SetMap_ok 5 3 ex_pack))) = 0
   \<and> Seq (r (fst (Save_times SetMap_ok 5 3 ex_pack))) \<noteq> Seq (r ex_pack) + 3"
proof -
  have s: "Pack_Save SetMap_ok 5 (ex_pack\<lparr>r := (r ex_pack)\<lparr>Time := t\<rparr>\<rparr>)
             = (ex_pack\<lparr>r := (r ex_pack)\<lparr>Time := 5\<rparr>\<rparr>, RootPack_zero, None)" for t
    by (simp add: Pack_Save_def DB_Update_def Let_def ex_pack_def ViewOnly_def Default_def GoTypes_def
          migrate_fmempty)
  have s0: "Pack_Save SetMap_ok 5 ex_pack
             = (ex_pack\<lparr>r := (r ex_pack)\<lparr>Time := 5\<rparr>\<rparr>, RootPack_zero, None)"
    by (simp add: Pack_Save_def DB_Update_def Let_def ex_pack_def ViewOnly_def Default_def GoTypes_def
          migrate_fmempty)
  have e: "snd (Save_times SetMap_ok 5 3 ex_pack) = None"
    by (simp add: numeral_3_eq_3 s0 s)
  have z: "Seq (r ex_pack) = 0" by (simp add: ex_pack_def)
  show ?thesis using e z Save_times_Seq [of SetMap_ok 5 3 ex_pack] by simp
qed

text \<open>
  Claim C3 (the code does not do this). The claim is that the Root snapshot returned by
  a successful Save is persisted, so that its hash can be fetched from the store. Save
  on the Pack with one staged object succeeds and writes that object, but the snapshot
  it returns is the zero \<^verbatim>\<open>RootPack\<close>, and nothing is stored under its hash: neither
  the database nor the Pack finds it.
\<close>

theorem C3_Save_root_not_persisted:
  "Pack_Save SetMap_ok 5 ex_staged
     = (ex_pack\<lparr>r := (r ex_pack)\<lparr>Time := 5\<rparr>, c := fmupd 8 [7] fmempty, cache := fmupd 8 [7] fmempty\<rparr>,
        RootPack_zero, None)
   \<and> DB_Get (c (fst (Pack_Save SetMap_ok 5 ex_staged))) 8 = Some [7]
   \<and> DB_Get (c (fst (Pack_Save SetMap_ok 5 ex_staged))) (rp_Hash (fst (snd (Pack_Save SetMap_ok 5 ex_staged)))) = None
   \<and> Pack_get (fst (Pack_Save SetMap_ok 5 ex_staged)) (rp_Hash (fst (snd (Pack_Save SetMap_ok 5 ex_staged))))
       = Inl (ErrObjectNotFound 0)"
proof -
  have s: "Pack_Save SetMap_ok 5 ex_staged
     = (ex_pack\<lparr>r := (r ex_pack)\<lparr>Time := 5\<rparr>, c := fmupd 8 [7] fmempty, cache := fmupd 8 [7] fmempty\<rparr>,
        RootPack_zero, None)"
    using Pack_Save_success [of ex_staged SetMap_ok "fmupd 8 [7] fmempty" 5]
    by (simp add: ex_defs fmupd_not_empty SetMap_ok_def)
  show ?thesis
    by (simp add: s DB_Get_def Pack_get_def RootPack_zero_def ex_pack_def)
qed

section \<open>Properties of add and get\<close>

text \<open>
  Claim C4. For every byte payload b, every Pack and every hash function: get of the
  key that add returned gives b back; the key is the hash of b, so a second add of b
  returns the same key; and the second add leaves the Pack, write buffer included,
  exactly as the first left it (the payload is not stored twice).
\<close>

theorem C4_add_get:
  "Pack_get (fst (Pack_add H p b)) (snd (Pack_add H p b)) = Inr b
   \<and> snd (Pack_add H p b) = H b
   \<and> snd (Pack_add H (fst (Pack_add H p b)) b) = snd (Pack_add H p b)
   \<and> fst (Pack_add H (fst (Pack_add H p b)) b) = fst (Pack_add H p b)"
  by (simp add: Pack_add_def Pack_set_def Pack_get_def Let_def)

theorem C4_add_get_witness:
  "Pack_add ex_H ex_pack [7] = (ex_staged, 8)
   \<and> Pack_get ex_staged 8 = Inr [7]
   \<and> Pack_add ex_H ex_staged [7] = (ex_staged, 8)"
  using C4_add_get [of ex_H ex_pack "[7]"]
  by (simp add: ex_defs Pack_add_def Pack_set_def)

text \<open>
  The Container adds nothing of its own to the round trip: over a database that returns
  under the key of \<open>AddAutoKey\<close> the bytes it was given, and an encoder that decodes
  what it encoded, Get after Save gives the schema key and the data back.
\<close>

lemma Container_Save_Get:
  assumes codec: "\<And>h. DeserializeRaw (Serialize h) = h"
    and backend: "\<And>ds val. Get (fst (AddAutoKey ds val)) (snd (AddAutoKey ds val)) = Some val"
  shows "Container_Get Get DeserializeRaw
           (fst (Container_Save AddAutoKey Serialize ds schemaKey dat))
           (snd (Container_Save AddAutoKey Serialize ds schemaKey dat))
         = Inr (schemaKey, dat)"
  by (simp add: Container_Get_def Container_Save_def backend codec)

section \<open>Properties of Append\<close>

lemma reattach_length: "length (reattach k xs) = length xs"
  by (induction xs arbitrary: k) simp_all

lemma reattach_nth:
  "i < length xs \<Longrightarrow>
   reattach k xs ! i = (if walkNode (xs ! i) \<noteq> None then Dynamic_Attach (xs ! i) (k + i) else xs ! i)"
proof (induction xs arbitrary: k i)
  case Nil
  then show ?case by simp
next
  case (Cons x xs)
  show ?case
  proof (cases i)
    case 0
    then show ?thesis by simp
  next
    case (Suc j)
    then have "j < length xs" using Cons.prems by simp
    then show ?thesis using Cons.IH [of j "Suc k"] Suc by simp
  qed
qed

lemma recorded_index_reattach:
  "i < length xs \<Longrightarrow>
   recorded_index (reattach 0 xs ! i) = (if walkNode (xs ! i) \<noteq> None then Some i else None)"
  by (auto simp add: reattach_nth recorded_index_def Dynamic_Attach_def split: option.splits)

lemma walkNode_reattach:
  "i < length xs \<Longrightarrow> (walkNode (reattach k xs ! i) = None) = (walkNode (xs ! i) = None)"
  by (simp add: reattach_nth Dynamic_Attach_def)

lemma Object_reattach:
  "i < length xs \<Longrightarrow> Object (reattach k xs ! i) = Object (xs ! i)"
  by (simp add: reattach_nth Dynamic_Attach_def)

lemma Dynamic_SetValue_walkNode:
  "Dynamic_SetValue H p dr obj = Inr d \<Longrightarrow> walkNode d \<noteq> None \<and> materialized d"
  by (auto simp add: Dynamic_SetValue_def Let_def materialized_def split: option.splits)

lemma Append_build_result:
  "Append_build H p objs drs = Inr out \<Longrightarrow>
   \<exists>new. out = drs @ new \<and> length new = length objs \<and> (\<forall>d \<in> set new. walkNode d \<noteq> None)"
proof (induction objs arbitrary: drs)
  case Nil
  then show ?case by simp
next
  case (Cons obj objs)
  from Cons.prems obtain d where
    d: "Dynamic_SetValue H p (Dynamic_blank\<lparr>walkNode := Some new_walkNode\<rparr>) obj = Inr d"
    and rest: "Append_build H p objs (drs @ [d]) = Inr out"
    by (auto split: sum.splits)
  from Cons.IH [OF rest] obtain new where
    new: "out = (drs @ [d]) @ new" "length new = length objs" "\<forall>x \<in> set new. walkNode x \<noteq> None"
    by blast
  have "walkNode d \<noteq> None" using Dynamic_SetValue_walkNode [OF d] by simp
  then have "out = drs @ (d # new) \<and> length (d # new) = length (obj # objs)
             \<and> (\<forall>x \<in> set (d # new). walkNode x \<noteq> None)"
    using new by simp
  then show ?case by blast
qed

lemma Pack_Append_result:
  assumes "objs \<noteq> []" "Pack_Append H p objs = (p', None)"
  shows "\<exists>new. Refs (r p') = reattach 0 (Refs (r p) @ new) \<and> length new = length objs
               \<and> (\<forall>d \<in> set new. walkNode d \<noteq> None)"
proof -
  from assms obtain out where b: "Append_build H p objs [] = Inr out"
    and p': "p' = p\<lparr>r := (r p)\<lparr>Refs := reattach 0 (Refs (r p) @ out)\<rparr>\<rparr>"
    by (auto simp add: Pack_Append_def split: sum.splits)
  from Append_build_result [OF b] have "length out = length objs \<and> (\<forall>d \<in> set out. walkNode d \<noteq> None)"
    by auto
  then show ?thesis using p' by auto
qed

text \<open>
  Claim C5. After a successful Append of at least one object the list has grown by the
  number of objects, and the index each entry records is its actual position: an entry
  with a \<^verbatim>\<open>walkNode\<close> records exactly its own index, and an entry that is still
  Unresolved has no \<^verbatim>\<open>walkNode\<close> and records no position at all. Every appended entry
  has a \<^verbatim>\<open>walkNode\<close> and records its index; the entries that were there keep their
  hash and their state. In particular, after Append of three objects on an empty Root
  followed by Pop, the two remaining references record the positions 0 and 1, and the
  popped reference records none.
\<close>

theorem C5_Append_reattach:
  assumes "objs \<noteq> []" and "Pack_Append H p objs = (p', None)"
  shows "length (Refs (r p')) = length (Refs (r p)) + length objs
       \<and> (\<forall>i < length (Refs (r p')).
            recorded_index (Refs (r p') ! i)
              = (if walkNode (Refs (r p') ! i) = None then None else Some i))
       \<and> (\<forall>i < length (Refs (r p')).
            length (Refs (r p)) \<le> i \<longrightarrow>
              walkNode (Refs (r p') ! i) \<noteq> None \<and> recorded_index (Refs (r p') ! i) = Some i)
       \<and> (\<forall>i < length (Refs (r p)).
            (walkNode (Refs (r p') ! i) = None) = (walkNode (Refs (r p) ! i) = None)
          \<and> Object (Refs (r p') ! i) = Object (Refs (r p) ! i))
       \<and> (Refs (r p) = [] \<and> length objs = 3 \<longrightarrow>
            map recorded_index (Refs (r (fst (Pack_Pop p')))) = [Some 0, Some 1]
          \<and> recorded_index (fst (snd (Pack_Pop p'))) = None)"
proof -
  from Pack_Append_result [OF assms] obtain new where
    refs: "Refs (r p') = reattach 0 (Refs (r p) @ new)"
    and len: "length new = length objs"
    and wn: "\<forall>d \<in> set new. walkNode d \<noteq> None"
    by blast
  let ?old = "Refs (r p)"
  have l: "length (Refs (r p')) = length ?old + length objs"
    by (simp add: refs reattach_length len)
  have a: "recorded_index (Refs (r p') ! i)
             = (if walkNode (Refs (r p') ! i) = None then None else Some i)"
    if "i < length (Refs (r p'))" for i
  proof -
    have i: "i < length (?old @ new)" using that by (simp add: refs reattach_length)
    show ?thesis
      using walkNode_reattach [OF i, of 0] recorded_index_reattach [OF i] by (simp add: refs)
  qed
  have w: "walkNode (Refs (r p') ! i) \<noteq> None"
    if "i < length (Refs (r p'))" "length ?old \<le> i" for i
  proof -
    have i: "i < length (?old @ new)" using that(1) by (simp add: refs reattach_length)
    have "(?old @ new) ! i = new ! (i - length ?old)" using that(2) by (simp add: nth_append)
    moreover have "i - length ?old < length new" using i that(2) by simp
    ultimately have "walkNode ((?old @ new) ! i) \<noteq> None" using wn by simp
    then show ?thesis using walkNode_reattach [OF i, of 0] by (simp add: refs)
  qed
  have b: "recorded_index (Refs (r p') ! i) = Some i"
    if "i < length (Refs (r p'))" "length ?old \<le> i" for i
    using a [OF that(1)] w [OF that] by simp
  have o: "(walkNode (Refs (r p') ! i) = None) = (walkNode (?old ! i) = None)
           \<and> Object (Refs (r p') ! i) = Object (?old ! i)"
    if "i < length ?old" for i
  proof -
    have i: "i < length (?old @ new)" using that by simp
    have "(?old @ new) ! i = ?old ! i" using that by (simp add: nth_append)
    then show ?thesis
      using walkNode_reattach [OF i, of 0] Object_reattach [OF i, of 0] by (simp add: refs)
  qed
  have c: "map recorded_index (Refs (r (fst (Pack_Pop p')))) = [Some 0, Some 1]
          \<and> recorded_index (fst (snd (Pack_Pop p'))) = None"
    if e: "?old = []" and three: "length objs = 3"
  proof -
    have l3: "length (Refs (r p')) = 3" using l e three by simp
    then obtain x y z where xyz: "Refs (r p') = [x, y, z]"
      by (auto simp add: numeral_3_eq_3 length_Suc_conv)
    have "recorded_index x = Some 0" using b [of 0] e xyz by simp
    moreover have "recorded_index y = Some 1" using b [of 1] e xyz by simp
    moreover have "walkNode z \<noteq> None" using w [of 2] e xyz by simp
    ultimately show ?thesis
      by (auto simp add: Pack_Pop_def Let_def xyz recorded_index_def Dynamic_Detach_def)
  qed
  show ?thesis using l a w b o c by blast
qed

theorem C5_Append_reattach_witness:
  "[1, 2, 3] \<noteq> ([] :: nat list)
   \<and> snd (Pack_Append ex_H ex_pack [1, 2, 3]) = None
   \<and> length (Refs (r (fst (Pack_Append ex_H ex_pack [1, 2, 3])))) = 3
   \<and> map recorded_index (Refs (r (fst (Pack_Append ex_H ex_pack [1, 2, 3])))) = [Some 0, Some 1, Some 2]
   \<and> map recorded_index (Refs (r (fst (Pack_Pop (fst (Pack_Append ex_H ex_pack [1, 2, 3]))))))
       = [Some 0, Some 1]
   \<and> recorded_index (fst (snd (Pack_Pop (fst (Pack_Append ex_H ex_pack [1, 2, 3]))))) = None"
proof -
  let ?p = "fst (Pack_Append ex_H ex_pack [1, 2, 3])"
  have e: "snd (Pack_Append ex_H ex_pack [1, 2, 3]) = None"
    by (simp add: Pack_Append_def ex_defs Dynamic_SetValue_def Dynamic_blank_def new_walkNode_def)
  have a: "Pack_Append ex_H ex_pack [1, 2, 3] = (?p, None)"
    using e by (simp add: prod_eq_iff)
  have n: "[1, 2, 3] \<noteq> ([] :: nat list)" by simp
  have refs: "map recorded_index (Refs (r ?p)) = [Some 0, Some 1, Some 2]"
    by (simp add: Pack_Append_def ex_defs Dynamic_SetValue_def Dynamic_blank_def new_walkNode_def
          Dynamic_Attach_def recorded_index_def)
  show ?thesis using e refs C5_Append_reattach [OF n a] by (simp add: ex_pack_def)
qed

section \<open>Properties of init and Refs\<close>

lemma Refs_loop_length: "length (fst (Refs_loop p xs)) = length xs"
  by (induction xs) (auto split: prod.splits sum.splits)

lemma Refs_loop_resolved:
  "\<forall>d \<in> set xs. walkNode d \<noteq> None \<Longrightarrow> Refs_loop p xs = (xs, None)"
  by (induction xs) auto

lemma Refs_loop_ok:
  "snd (Refs_loop p xs) = None \<Longrightarrow> i < length xs \<Longrightarrow>
     walkNode (fst (Refs_loop p xs) ! i) \<noteq> None
   \<and> (walkNode (xs ! i) = None \<longrightarrow> materialized (fst (Refs_loop p xs) ! i))
   \<and> (walkNode (xs ! i) \<noteq> None \<longrightarrow> fst (Refs_loop p xs) ! i = xs ! i)
   \<and> Object (fst (Refs_loop p xs) ! i) = Object (xs ! i)"
proof (induction xs arbitrary: i)
  case Nil
  then show ?case by simp
next
  case (Cons x xs)
  obtain ys e where rest: "Refs_loop p xs = (ys, e)" by (cases "Refs_loop p xs") auto
  show ?case
  proof (cases "walkNode x = None")
    case True
    obtain x' res where val: "Dynamic_Value p x = (x', res)" by (cases "Dynamic_Value p x") auto
    from Cons.prems(1) True val rest obtain v where v: "res = Inr v" and e: "e = None"
      by (cases res) auto
    have x': "walkNode x' \<noteq> None \<and> materialized x' \<and> Object x' = Object x"
      using Dynamic_Value_materialized [of p x v] Dynamic_Value_Object [of p x] val v by simp
    show ?thesis
    proof (cases i)
      case 0
      then show ?thesis using True val v rest x' by simp
    next
      case (Suc j)
      then have j: "j < length xs" using Cons.prems(2) by simp
      have "snd (Refs_loop p xs) = None" using rest e by simp
      from Cons.IH [OF this j] show ?thesis using True val v rest Suc by simp
    qed
  next
    case False
    from Cons.prems(1) False rest have e: "e = None" by auto
    show ?thesis
    proof (cases i)
      case 0
      then show ?thesis using False rest by auto
    next
      case (Suc j)
      then have j: "j < length xs" using Cons.prems(2) by simp
      have "snd (Refs_loop p xs) = None" using rest e by simp
      from Cons.IH [OF this j] show ?thesis using False rest Suc by auto
    qed
  qed
qed

lemma Refs_loop_frame: "Refs_loop (p\<lparr>r := x\<rparr>) xs = Refs_loop p xs"
proof -
  have u: "Pack_unpack (p\<lparr>r := x\<rparr>) s h = Pack_unpack p s h" for s h
    by (simp add: Pack_unpack_def Pack_get_def split: option.splits sum.splits)
  have v: "Dynamic_Value (p\<lparr>r := x\<rparr>) d = Dynamic_Value p d" for d
    unfolding Dynamic_Value_def u by (rule refl)
  show ?thesis by (induction xs) (simp_all add: v)
qed

lemma Pack_Refs_ok:
  assumes "snd (snd (Pack_Refs p)) = None"
  shows "length (Refs (r (fst (Pack_Refs p)))) = length (Refs (r p))"
    and "i < length (Refs (r p)) \<Longrightarrow> walkNode (Refs (r (fst (Pack_Refs p))) ! i) \<noteq> None"
    and "i < length (Refs (r p)) \<Longrightarrow> walkNode (Refs (r p) ! i) = None \<Longrightarrow>
           materialized (Refs (r (fst (Pack_Refs p))) ! i)"
    and "Pack_Refs (fst (Pack_Refs p)) = (fst (Pack_Refs p), [], None)"
proof -
  obtain ys e where l: "Refs_loop p (Refs (r p)) = (ys, e)" by (cases "Refs_loop p (Refs (r p))") auto
  then have e: "snd (Refs_loop p (Refs (r p))) = None" using assms by (simp add: Pack_Refs_def)
  have f: "Refs (r (fst (Pack_Refs p))) = fst (Refs_loop p (Refs (r p)))"
    using l by (simp add: Pack_Refs_def)
  show len: "length (Refs (r (fst (Pack_Refs p)))) = length (Refs (r p))"
    by (simp add: f Refs_loop_length)
  show w: "walkNode (Refs (r (fst (Pack_Refs p))) ! i) \<noteq> None" if "i < length (Refs (r p))" for i
    using Refs_loop_ok [OF e that] f by simp
  show "materialized (Refs (r (fst (Pack_Refs p))) ! i)"
    if "i < length (Refs (r p))" "walkNode (Refs (r p) ! i) = None"
    using Refs_loop_ok [OF e that(1)] that(2) f by simp
  have all: "\<forall>d \<in> set ys. walkNode d \<noteq> None"
    using w len f l by (auto simp add: in_set_conv_nth)
  show "Pack_Refs (fst (Pack_Refs p)) = (fst (Pack_Refs p), [], None)"
    using l Refs_loop_resolved [OF all, of p]
    by (simp add: Pack_Refs_def Refs_loop_frame)
qed

lemma Dynamic_Value_nil:
  "walkNode dr = None \<Longrightarrow>
   Dynamic_Value p dr =
     (case Pack_unpack p (SchemaRef dr) (Object dr) of
        Inl e \<Rightarrow> (dr, Inl e)
      | Inr v \<Rightarrow> (resolved_with dr v, Inr v))"
  by (simp add: Dynamic_Value_fresh)

lemma Refs_loop_exact:
  "snd (Refs_loop p xs) = None \<Longrightarrow> i < length xs \<Longrightarrow>
   (case walkNode (xs ! i) of
      Some wn \<Rightarrow> fst (Refs_loop p xs) ! i = xs ! i
    | None \<Rightarrow>
        (case Pack_unpack p (SchemaRef (xs ! i)) (Object (xs ! i)) of
           Inl e \<Rightarrow> False
         | Inr v \<Rightarrow> fst (Refs_loop p xs) ! i = resolved_with (xs ! i) v))"
proof (induction xs arbitrary: i)
  case Nil
  then show ?case by simp
next
  case (Cons x xs)
  obtain ys e where rest: "Refs_loop p xs = (ys, e)" by (cases "Refs_loop p xs") auto
  show ?case
  proof (cases "walkNode x = None")
    case True
    from Cons.prems(1) True rest obtain v where
      v: "Pack_unpack p (SchemaRef x) (Object x) = Inr v" and e: "e = None"
      by (cases "Pack_unpack p (SchemaRef x) (Object x)") (auto simp add: Dynamic_Value_nil)
    show ?thesis
    proof (cases i)
      case 0
      then show ?thesis using True v rest by (simp add: Dynamic_Value_nil)
    next
      case (Suc j)
      then have j: "j < length xs" using Cons.prems(2) by simp
      have "snd (Refs_loop p xs) = None" using rest e by simp
      from Cons.IH [OF this j] show ?thesis using True v rest Suc
        by (auto simp add: Dynamic_Value_nil split: option.splits sum.splits)
    qed
  next
    case False
    from Cons.prems(1) False rest have e: "e = None" by auto
    show ?thesis
    proof (cases i)
      case 0
      then show ?thesis using False rest by auto
    next
      case (Suc j)
      then have j: "j < length xs" using Cons.prems(2) by simp
      have "snd (Refs_loop p xs) = None" using rest e by simp
      from Cons.IH [OF this j] show ?thesis using False rest Suc
        by (auto split: option.splits sum.splits)
    qed
  qed
qed

lemma Refs_loop_succeeds:
  "\<forall>d \<in> set xs. walkNode d = None \<longrightarrow> \<not> isl (Pack_unpack p (SchemaRef d) (Object d)) \<Longrightarrow>
   snd (Refs_loop p xs) = None"
proof (induction xs)
  case Nil
  then show ?case by simp
next
  case (Cons x xs)
  then have ih: "snd (Refs_loop p xs) = None" by simp
  show ?case
  proof (cases "walkNode x = None")
    case True
    then obtain v where "Pack_unpack p (SchemaRef x) (Object x) = Inr v"
      using Cons.prems by (cases "Pack_unpack p (SchemaRef x) (Object x)") auto
    then show ?thesis using True ih by (auto simp add: Dynamic_Value_nil split: prod.splits)
  next
    case False
    then show ?thesis using ih by (auto split: prod.splits)
  qed
qed

lemma Refs_loop_fails:
  "snd (Refs_loop p xs) = Some e \<Longrightarrow>
   \<exists>d \<in> set xs. walkNode d = None \<and> Pack_unpack p (SchemaRef d) (Object d) = Inl e"
proof (induction xs)
  case Nil
  then show ?case by simp
next
  case (Cons x xs)
  show ?case
  proof (cases "walkNode x = None")
    case True
    show ?thesis
    proof (cases "Pack_unpack p (SchemaRef x) (Object x)")
      case (Inl e')
      then have "e' = e" using Cons.prems True by (simp add: Dynamic_Value_nil)
      then show ?thesis using True Inl by auto
    next
      case (Inr v)
      then have "snd (Refs_loop p xs) = Some e"
        using Cons.prems True by (simp add: Dynamic_Value_nil split: prod.splits)
      from Cons.IH [OF this] show ?thesis by auto
    qed
  next
    case False
    then have "snd (Refs_loop p xs) = Some e"
      using Cons.prems by (auto split: prod.splits)
    from Cons.IH [OF this] show ?thesis by auto
  qed
qed

lemma Pack_init_eager:
  "flags p AND EntireTree \<noteq> 0 \<Longrightarrow>
   Refs (r (fst (Pack_init p))) = fst (Refs_loop p (Refs (r p)))
   \<and> snd (Pack_init p) = snd (Refs_loop p (Refs (r p)))
   \<and> snd (snd (Pack_Refs p)) = snd (Pack_init p)
   \<and> fst (Pack_init p) = fst (Pack_Refs p)"
  by (simp add: Pack_init_def Pack_Refs_def split: prod.splits)

text \<open>
  Claim C6. For a Pack without the \<^verbatim>\<open>EntireTree\<close> flag over a Root with at least two
  references, init changes nothing, and RefByIndex 0 leaves every other position as it
  was, so an Unresolved index 1 stays Unresolved. Index 0 is resolved through
  \<^verbatim>\<open>Pack.unpack\<close> of its own schema and hash: when that gives a value, the call returns
  no error and slot 0 (and the Dynamic returned) is the reference holding exactly that
  value; when it gives an error, that error is returned and the slot is unchanged; a
  reference that already has a \<^verbatim>\<open>walkNode\<close> is returned as it is.
  For a Pack with \<^verbatim>\<open>EntireTree\<close>, init keeps the length of the list; it returns no error
  when every Unresolved reference unpacks, and an error it returns is the unpack error
  of an Unresolved reference. After an init without error every reference that was
  Unresolved holds exactly the value \<^verbatim>\<open>Pack.unpack\<close> gave for it and every other
  reference is unchanged, so a reference is materialized exactly when it was Unresolved
  or materialized before; over a Root whose references are each Unresolved or
  materialized, all of them are materialized, and Refs then returns with no error and
  nothing left to unpack.
\<close>

theorem C6_lazy_eager:
  "(flags p AND EntireTree = 0 \<and> 2 \<le> length (Refs (r p)) \<longrightarrow>
      Pack_init p = (p, None)
    \<and> (\<forall>j < length (Refs (r p)). 0 < j \<longrightarrow>
         Refs (r (fst (Pack_RefByIndex p 0))) ! j = Refs (r p) ! j)
    \<and> (walkNode (Refs (r p) ! 1) = None \<longrightarrow>
         walkNode (Refs (r (fst (Pack_RefByIndex p 0))) ! 1) = None)
    \<and> (walkNode (Refs (r p) ! 0) \<noteq> None \<longrightarrow>
         Pack_RefByIndex p 0 = (p, Refs (r p) ! 0, None))
    \<and> (walkNode (Refs (r p) ! 0) = None \<longrightarrow>
         (case Pack_unpack p (SchemaRef (Refs (r p) ! 0)) (Object (Refs (r p) ! 0)) of
            Inl e \<Rightarrow>
              snd (snd (Pack_RefByIndex p 0)) = Some e
            \<and> Refs (r (fst (Pack_RefByIndex p 0))) ! 0 = Refs (r p) ! 0
          | Inr v \<Rightarrow>
              snd (snd (Pack_RefByIndex p 0)) = None
            \<and> Refs (r (fst (Pack_RefByIndex p 0))) ! 0 = resolved_with (Refs (r p) ! 0) v
            \<and> fst (snd (Pack_RefByIndex p 0)) = resolved_with (Refs (r p) ! 0) v
            \<and> materialized (Refs (r (fst (Pack_RefByIndex p 0))) ! 0))))
 \<and> (flags p AND EntireTree \<noteq> 0 \<longrightarrow>
      length (Refs (r (fst (Pack_init p)))) = length (Refs (r p))
    \<and> ((\<forall>d \<in> set (Refs (r p)).
           walkNode d = None \<longrightarrow> \<not> isl (Pack_unpack p (SchemaRef d) (Object d)))
         \<longrightarrow> snd (Pack_init p) = None)
    \<and> (\<forall>e. snd (Pack_init p) = Some e \<longrightarrow>
          (\<exists>d \<in> set (Refs (r p)).
             walkNode d = None \<and> Pack_unpack p (SchemaRef d) (Object d) = Inl e))
    \<and> (snd (Pack_init p) = None \<longrightarrow>
          (\<forall>i < length (Refs (r p)).
             (case walkNode (Refs (r p) ! i) of
                Some wn \<Rightarrow> Refs (r (fst (Pack_init p))) ! i = Refs (r p) ! i
              | None \<Rightarrow>
                  (case Pack_unpack p (SchemaRef (Refs (r p) ! i)) (Object (Refs (r p) ! i)) of
                     Inl e \<Rightarrow> False
                   | Inr v \<Rightarrow>
                       Refs (r (fst (Pack_init p))) ! i = resolved_with (Refs (r p) ! i) v))
           \<and> materialized (Refs (r (fst (Pack_init p))) ! i)
               = (walkNode (Refs (r p) ! i) = None \<or> materialized (Refs (r p) ! i)))
        \<and> ((\<forall>d \<in> set (Refs (r p)). walkNode d = None \<or> materialized d) \<longrightarrow>
              (\<forall>d \<in> set (Refs (r (fst (Pack_init p)))). materialized d))
        \<and> Pack_Refs (fst (Pack_init p)) = (fst (Pack_init p), [], None)))"
proof -
  let ?refs = "Refs (r p)"
  let ?q = "fst (Pack_RefByIndex p 0)"
  let ?d = "?refs ! 0"
  let ?new = "Refs (r (fst (Pack_init p)))"
  have lazy_init: "flags p AND EntireTree = 0 \<Longrightarrow> Pack_init p = (p, None)"
    by (simp add: Pack_init_def)
  have pos: "0 < int (length ?refs) \<and> 0 < length ?refs" if "2 \<le> length ?refs"
    using that by (cases ?refs) simp_all
  have res: "Pack_RefByIndex p 0 = (p, ?d, None)" if "2 \<le> length ?refs" "walkNode ?d \<noteq> None"
    using RefByIndex_resolved [of 0 p] pos [OF that(1)] that(2) by simp
  have unres: "Pack_RefByIndex p 0 =
        (case Pack_unpack p (SchemaRef ?d) (Object ?d) of
           Inl e \<Rightarrow> (p\<lparr>r := (r p)\<lparr>Refs := ?refs[0 := ?d]\<rparr>\<rparr>, ?d, Some e)
         | Inr v \<Rightarrow> (p\<lparr>r := (r p)\<lparr>Refs := ?refs[0 := resolved_with ?d v]\<rparr>\<rparr>,
                       resolved_with ?d v, None))"
    if "2 \<le> length ?refs" "walkNode ?d = None"
    using RefByIndex_unresolved [of 0 p] pos [OF that(1)] that(2)
    by (simp add: Dynamic_Value_nil split: sum.splits)
  have frame: "Refs (r ?q) ! j = ?refs ! j" if "2 \<le> length ?refs" "0 < j" for j
  proof (cases "walkNode ?d = None")
    case True
    then show ?thesis using unres [OF that(1)] that(2) by (simp split: sum.splits)
  next
    case False
    then show ?thesis using res [OF that(1)] by simp
  qed
  have one: "walkNode (Refs (r ?q) ! 1) = None"
    if "2 \<le> length ?refs" "walkNode (?refs ! 1) = None"
    using frame [OF that(1), of 1] that(2) by simp
  have zero: "(case Pack_unpack p (SchemaRef ?d) (Object ?d) of
            Inl e \<Rightarrow> snd (snd (Pack_RefByIndex p 0)) = Some e \<and> Refs (r ?q) ! 0 = ?d
          | Inr v \<Rightarrow> snd (snd (Pack_RefByIndex p 0)) = None
              \<and> Refs (r ?q) ! 0 = resolved_with ?d v
              \<and> fst (snd (Pack_RefByIndex p 0)) = resolved_with ?d v
              \<and> materialized (Refs (r ?q) ! 0))"
    if "2 \<le> length ?refs" "walkNode ?d = None"
    using unres [OF that] pos [OF that(1)]
    by (simp add: materialized_def split: sum.splits)
  have lazy: "Pack_init p = (p, None)
    \<and> (\<forall>j < length ?refs. 0 < j \<longrightarrow> Refs (r ?q) ! j = ?refs ! j)
    \<and> (walkNode (?refs ! 1) = None \<longrightarrow> walkNode (Refs (r ?q) ! 1) = None)
    \<and> (walkNode ?d \<noteq> None \<longrightarrow> Pack_RefByIndex p 0 = (p, ?d, None))
    \<and> (walkNode ?d = None \<longrightarrow>
         (case Pack_unpack p (SchemaRef ?d) (Object ?d) of
            Inl e \<Rightarrow> snd (snd (Pack_RefByIndex p 0)) = Some e \<and> Refs (r ?q) ! 0 = ?d
          | Inr v \<Rightarrow> snd (snd (Pack_RefByIndex p 0)) = None
              \<and> Refs (r ?q) ! 0 = resolved_with ?d v
              \<and> fst (snd (Pack_RefByIndex p 0)) = resolved_with ?d v
              \<and> materialized (Refs (r ?q) ! 0)))"
    if "flags p AND EntireTree = 0" "2 \<le> length ?refs"
    using lazy_init [OF that(1)] frame [OF that(2)] one [OF that(2)] res [OF that(2)]
      zero [OF that(2)]
    by blast
  have eager: "length ?new = length ?refs
    \<and> ((\<forall>d \<in> set ?refs. walkNode d = None \<longrightarrow> \<not> isl (Pack_unpack p (SchemaRef d) (Object d)))
         \<longrightarrow> snd (Pack_init p) = None)
    \<and> (\<forall>e. snd (Pack_init p) = Some e \<longrightarrow>
          (\<exists>d \<in> set ?refs. walkNode d = None \<and> Pack_unpack p (SchemaRef d) (Object d) = Inl e))
    \<and> (snd (Pack_init p) = None \<longrightarrow>
          (\<forall>i < length ?refs.
             (case walkNode (?refs ! i) of
                Some wn \<Rightarrow> ?new ! i = ?refs ! i
              | None \<Rightarrow>
                  (case Pack_unpack p (SchemaRef (?refs ! i)) (Object (?refs ! i)) of
                     Inl e \<Rightarrow> False
                   | Inr v \<Rightarrow> ?new ! i = resolved_with (?refs ! i) v))
           \<and> materialized (?new ! i) = (walkNode (?refs ! i) = None \<or> materialized (?refs ! i)))
        \<and> ((\<forall>d \<in> set ?refs. walkNode d = None \<or> materialized d) \<longrightarrow>
              (\<forall>d \<in> set ?new. materialized d))
        \<and> Pack_Refs (fst (Pack_init p)) = (fst (Pack_init p), [], None))"
    if fl: "flags p AND EntireTree \<noteq> 0"
  proof -
    have i1: "?new = fst (Refs_loop p ?refs)"
      and i2: "snd (Pack_init p) = snd (Refs_loop p ?refs)"
      and i3: "snd (snd (Pack_Refs p)) = snd (Pack_init p)"
      and i4: "fst (Pack_init p) = fst (Pack_Refs p)"
      using Pack_init_eager [OF fl] by blast+
    have len: "length ?new = length ?refs" by (simp add: i1 Refs_loop_length)
    have succ: "snd (Pack_init p) = None"
      if "\<forall>d \<in> set ?refs. walkNode d = None \<longrightarrow> \<not> isl (Pack_unpack p (SchemaRef d) (Object d))"
      using Refs_loop_succeeds [OF that] by (simp add: i2)
    have fail: "\<exists>d \<in> set ?refs. walkNode d = None \<and> Pack_unpack p (SchemaRef d) (Object d) = Inl e"
      if "snd (Pack_init p) = Some e" for e
      using Refs_loop_fails [of p ?refs e] that by (simp add: i2)
    have exact: "(case walkNode (?refs ! i) of
                Some wn \<Rightarrow> ?new ! i = ?refs ! i
              | None \<Rightarrow>
                  (case Pack_unpack p (SchemaRef (?refs ! i)) (Object (?refs ! i)) of
                     Inl e \<Rightarrow> False
                   | Inr v \<Rightarrow> ?new ! i = resolved_with (?refs ! i) v))"
      if "snd (Pack_init p) = None" "i < length ?refs" for i
    proof -
      have "snd (Refs_loop p ?refs) = None" using that(1) by (simp add: i2)
      from Refs_loop_exact [OF this that(2)] show ?thesis unfolding i1 .
    qed
    have mat: "materialized (?new ! i) = (walkNode (?refs ! i) = None \<or> materialized (?refs ! i))"
      if "snd (Pack_init p) = None" "i < length ?refs" for i
      using exact [OF that]
      by (cases "walkNode (?refs ! i)") (auto simp add: materialized_def split: sum.splits)
    have all: "\<forall>d \<in> set ?new. materialized d"
      if ok: "snd (Pack_init p) = None" and wf: "\<forall>d \<in> set ?refs. walkNode d = None \<or> materialized d"
    proof
      fix d assume "d \<in> set ?new"
      then obtain i where i': "i < length ?new" "d = ?new ! i" by (auto simp add: in_set_conv_nth)
      then have il: "i < length ?refs" using len by simp
      then have "walkNode (?refs ! i) = None \<or> materialized (?refs ! i)" using wf by simp
      then show "materialized d" using mat [OF ok il] i'(2) by simp
    qed
    have again: "Pack_Refs (fst (Pack_init p)) = (fst (Pack_init p), [], None)"
      if "snd (Pack_init p) = None"
    proof -
      have "snd (snd (Pack_Refs p)) = None" using that by (simp add: i3)
      from Pack_Refs_ok(4) [OF this] show ?thesis by (simp add: i4)
    qed
    show ?thesis using len succ fail exact mat all again by blast
  qed
  show ?thesis using lazy eager by blast
qed

theorem C6_lazy_eager_witness:
  "flags ex_lazy AND EntireTree = 0 \<and> 2 \<le> length (Refs (r ex_lazy))
   \<and> Pack_init ex_lazy = (ex_lazy, None)
   \<and> walkNode (Refs (r ex_lazy) ! 0) = None
   \<and> Pack_unpack ex_lazy 1 8 = Inr 7
   \<and> snd (snd (Pack_RefByIndex ex_lazy 0)) = None
   \<and> Refs (r (fst (Pack_RefByIndex ex_lazy 0))) ! 0
       = \<lparr>SchemaRef = 1, Object = 8,
          walkNode = Some \<lparr>wn_value = Some 7, wn_dirty = False, wn_index = None\<rparr>\<rparr>
   \<and> Refs (r (fst (Pack_RefByIndex ex_lazy 0))) ! 1
       = \<lparr>SchemaRef = 1, Object = 10, walkNode = None\<rparr>
   \<and> flags ex_eager AND EntireTree \<noteq> 0
   \<and> Pack_unpack ex_eager 1 10 = Inr 9
   \<and> snd (Pack_init ex_eager) = None
   \<and> Refs (r (fst (Pack_init ex_eager))) ! 0
       = \<lparr>SchemaRef = 1, Object = 8,
          walkNode = Some \<lparr>wn_value = Some 7, wn_dirty = False, wn_index = None\<rparr>\<rparr>
   \<and> Refs (r (fst (Pack_init ex_eager))) ! 1
       = \<lparr>SchemaRef = 1, Object = 10,
          walkNode = Some \<lparr>wn_value = Some 9, wn_dirty = False, wn_index = None\<rparr>\<rparr>
   \<and> materialized (Refs (r (fst (Pack_init ex_eager))) ! 0)
   \<and> materialized (Refs (r (fst (Pack_init ex_eager))) ! 1)
   \<and> Pack_Refs (fst (Pack_init ex_eager)) = (fst (Pack_init ex_eager), [], None)"
proof -
  have refs: "Refs (r ex_lazy) = [\<lparr>SchemaRef = 1, Object = 8, walkNode = None\<rparr>,
                                  \<lparr>SchemaRef = 1, Object = 10, walkNode = None\<rparr>]"
    "Refs (r ex_eager) = Refs (r ex_lazy)"
    by (simp_all add: ex_defs)
  have fl: "flags ex_lazy AND EntireTree = 0" "flags ex_eager AND EntireTree \<noteq> 0"
    by (simp_all add: ex_defs)
  have u: "Pack_unpack ex_lazy 1 8 = Inr 7" "Pack_unpack ex_eager 1 8 = Inr 7"
    "Pack_unpack ex_eager 1 10 = Inr 9"
    by (simp_all add: ex_defs Pack_unpack_def Pack_get_def DB_Get_def)
  have lazy: "Pack_init ex_lazy = (ex_lazy, None)
     \<and> snd (snd (Pack_RefByIndex ex_lazy 0)) = None
     \<and> Refs (r (fst (Pack_RefByIndex ex_lazy 0))) ! 0
         = \<lparr>SchemaRef = 1, Object = 8,
            walkNode = Some \<lparr>wn_value = Some 7, wn_dirty = False, wn_index = None\<rparr>\<rparr>
     \<and> Refs (r (fst (Pack_RefByIndex ex_lazy 0))) ! 1
         = \<lparr>SchemaRef = 1, Object = 10, walkNode = None\<rparr>"
    using C6_lazy_eager [of ex_lazy] fl(1) u(1)
    by (simp add: refs new_walkNode_def)
  have ok: "snd (Pack_init ex_eager) = None"
    using C6_lazy_eager [of ex_eager] fl(2) u by (simp add: refs)
  have eager: "Refs (r (fst (Pack_init ex_eager))) ! 0
         = \<lparr>SchemaRef = 1, Object = 8,
            walkNode = Some \<lparr>wn_value = Some 7, wn_dirty = False, wn_index = None\<rparr>\<rparr>
     \<and> Refs (r (fst (Pack_init ex_eager))) ! 1
         = \<lparr>SchemaRef = 1, Object = 10,
            walkNode = Some \<lparr>wn_value = Some 9, wn_dirty = False, wn_index = None\<rparr>\<rparr>
     \<and> materialized (Refs (r (fst (Pack_init ex_eager))) ! 0)
   \<and> materialized (Refs (r (fst (Pack_init ex_eager))) ! 1)
     \<and> Pack_Refs (fst (Pack_init ex_eager)) = (fst (Pack_init ex_eager), [], None)"
    using C6_lazy_eager [of ex_eager] fl(2) u ok
    by (simp add: refs new_walkNode_def less_Suc_eq numeral_2_eq_2 all_conj_distrib materialized_def)
  show ?thesis using fl u lazy ok eager by (simp add: refs materialized_def)
qed

text \<open>
  Every method of the Pack keeps the references of the Root Unresolved or materialized:
  a \<^verbatim>\<open>walkNode\<close> without a value never enters the list through them.
\<close>

lemma materialized_Attach: "materialized (Dynamic_Attach d i) = materialized d"
  by (cases "walkNode d") (simp_all add: materialized_def Dynamic_Attach_def)

lemma reattach_keeps:
  "\<forall>d \<in> set xs. walkNode d = None \<or> materialized d \<Longrightarrow>
   \<forall>d \<in> set (reattach k xs). walkNode d = None \<or> materialized d"
  by (induction xs arbitrary: k) (auto simp add: materialized_Attach)

lemma Append_build_materialized:
  "Append_build H p objs drs = Inr out \<Longrightarrow> \<forall>d \<in> set drs. materialized d \<Longrightarrow>
   \<forall>d \<in> set out. materialized d"
proof (induction objs arbitrary: drs)
  case Nil
  then show ?case by simp
next
  case (Cons obj objs)
  from Cons.prems(1) obtain d where
    d: "Dynamic_SetValue H p (Dynamic_blank\<lparr>walkNode := Some new_walkNode\<rparr>) obj = Inr d"
    and rest: "Append_build H p objs (drs @ [d]) = Inr out"
    by (auto split: sum.splits)
  have "\<forall>x \<in> set (drs @ [d]). materialized x"
    using Cons.prems(2) Dynamic_SetValue_walkNode [OF d] by simp
  from Cons.IH [OF rest this] show ?case .
qed

lemma Refs_loop_keeps:
  "\<forall>d \<in> set xs. walkNode d = None \<or> materialized d \<Longrightarrow>
   \<forall>d \<in> set (fst (Refs_loop p xs)). walkNode d = None \<or> materialized d"
proof (induction xs)
  case Nil
  then show ?case by simp
next
  case (Cons x xs)
  then have ih: "\<forall>d \<in> set (fst (Refs_loop p xs)). walkNode d = None \<or> materialized d" by simp
  show ?case
  proof (cases "walkNode x = None")
    case True
    then show ?thesis using ih Cons.prems
      by (cases "Pack_unpack p (SchemaRef x) (Object x)")
         (auto simp add: Dynamic_Value_nil materialized_def split: prod.splits)
  next
    case False
    then show ?thesis using ih Cons.prems by (auto split: prod.splits)
  qed
qed

lemma methods_keep_references:
  assumes "\<forall>d \<in> set (Refs (r p)). walkNode d = None \<or> materialized d"
  shows "\<forall>d \<in> set (Refs (r (fst (Pack_Append H p objs)))). walkNode d = None \<or> materialized d"
    and "\<forall>d \<in> set (Refs (r (fst (Pack_Pop p)))). walkNode d = None \<or> materialized d"
    and "\<forall>d \<in> set (Refs (r (fst (Pack_Refs p)))). walkNode d = None \<or> materialized d"
    and "\<forall>d \<in> set (Refs (r (fst (Pack_init p)))). walkNode d = None \<or> materialized d"
    and "\<forall>d \<in> set (Refs (r (fst (Pack_RefByIndex p i)))). walkNode d = None \<or> materialized d"
proof -
  show "\<forall>d \<in> set (Refs (r (fst (Pack_Append H p objs)))). walkNode d = None \<or> materialized d"
  proof (cases "Append_build H p objs []")
    case (Inl e)
    then show ?thesis using assms by (simp add: Pack_Append_def)
  next
    case (Inr out)
    have "\<forall>d \<in> set out. materialized d" using Append_build_materialized [OF Inr] by simp
    then have "\<forall>d \<in> set (Refs (r p) @ out). walkNode d = None \<or> materialized d"
      using assms by auto
    from reattach_keeps [OF this, of 0] show ?thesis using Inr assms
      by (simp add: Pack_Append_def)
  qed
  show "\<forall>d \<in> set (Refs (r (fst (Pack_Pop p)))). walkNode d = None \<or> materialized d"
  proof (cases "snd (snd (Pack_Pop p)) = Some PanicNotImplemented")
    case True
    then show ?thesis using assms Pack_Pop_panic [OF True] by simp
  next
    case False
    then show ?thesis using assms Pack_Pop_Refs [OF False] by (auto dest: in_set_butlastD)
  qed
  show refs: "\<forall>d \<in> set (Refs (r (fst (Pack_Refs p)))). walkNode d = None \<or> materialized d"
    using Refs_loop_keeps [OF assms, of p] by (simp add: Pack_Refs_def split: prod.splits)
  show "\<forall>d \<in> set (Refs (r (fst (Pack_init p)))). walkNode d = None \<or> materialized d"
    using refs assms by (simp add: Pack_init_def split: prod.splits)
  show "\<forall>d \<in> set (Refs (r (fst (Pack_RefByIndex p i)))). walkNode d = None \<or> materialized d"
  proof (cases "0 \<le> i \<and> i < int (length (Refs (r p)))")
    case False
    then show ?thesis using assms by (auto simp add: Pack_RefByIndex_def)
  next
    case True
    show ?thesis
    proof (cases "walkNode (Refs (r p) ! nat i) = None")
      case False
      then show ?thesis using True assms RefByIndex_resolved [of i p] by auto
    next
      case n: True
      let ?d = "Refs (r p) ! nat i"
      have "walkNode (fst (Dynamic_Value p ?d)) = None \<or> materialized (fst (Dynamic_Value p ?d))"
        using n by (cases "Pack_unpack p (SchemaRef ?d) (Object ?d)")
                   (simp_all add: Dynamic_Value_nil materialized_def)
      then show ?thesis using True n assms RefByIndex_unresolved [of i p]
        by (auto dest!: set_update_subset_insert [THEN subsetD])
    qed
  qed
qed

end
